theory Spec2Isabelle
  imports Main "HOL-Library.Sublist"
begin

section \<open>The command line of ansible-signatory (\<^verbatim>\<open>cli.py\<close>)\<close>

text \<open>
  The module \<^verbatim>\<open>ansible_signatory/cli.py\<close> builds an \<^verbatim>\<open>argparse\<close> parser with
  three subcommands, chooses a file-existence differ, and runs the
  \<^verbatim>\<open>validate-checksum\<close> handler, which translates the outcome of
  \<^verbatim>\<open>ChecksumFile.verify\<close> into a return code and printed text.

  The functions of \<^verbatim>\<open>cli.py\<close> are embedded one by one under their own names. What
  they call outside the module is the environment: the operating system
  (\<^verbatim>\<open>os.listdir\<close>, \<^verbatim>\<open>os.path.exists\<close>, \<^verbatim>\<open>open(...).read()\<close>), the class
  \<^verbatim>\<open>ChecksumFile\<close> of the package \<^verbatim>\<open>ansible_signatory.checksum\<close> (its constructor,
  \<^verbatim>\<open>parse\<close>, \<^verbatim>\<open>verify\<close> and the constant \<^verbatim>\<open>MODES\<close>), and the standard library
  \<^verbatim>\<open>argparse\<close>. The first two are parameters (a record of functions); every call
  is recorded in a trace of events, so that the order of the effects and their
  absence can be stated.
\<close>

subsection \<open>Exceptions, differs, events\<close>

text \<open>
  The exceptions that can cross \<^verbatim>\<open>cli.py\<close>. \<^verbatim>\<open>ChecksumMismatch\<close> carries the text
  that \<^verbatim>\<open>str(e)\<close> returns; \<^verbatim>\<open>SystemExit\<close> carries the status \<^verbatim>\<open>argparse\<close> exits with.
\<close>

datatype exn =
    FileNotFoundError string
  | NotADirectoryError string
  | IsADirectoryError string
  | KeyError string
  | AttributeError string
  | ChecksumMismatch string
  | SystemExit int
  | OtherError string

text \<open>The two classes that \<^verbatim>\<open>DIFFER_MAP\<close> and the automatic choice can return.\<close>

datatype differ =
    GitChecksumFileExistenceDiffer
  | DirectoryChecksumFileExistenceDiffer

datatype event =
    ListDir string
  | PathExists string
  | OpenRead string
  | NewChecksumFile string differ
  | Parse string
  | Verify bool
  | Print string
  | SetupLogging "int option"
  | LogRecord int string

text \<open>
  A computation with effects: the events it caused, in order, and either the exception
  it raised (\<open>Inl\<close>) or the value it returned (\<open>Inr\<close>).
\<close>

type_synonym 'a io = "event list \<times> (exn + 'a)"

definition return_io :: "'a \<Rightarrow> 'a io" where
  "return_io x = ([], Inr x)"

definition raise_io :: "exn \<Rightarrow> 'a io" where
  "raise_io e = ([], Inl e)"

definition bind_io :: "'a io \<Rightarrow> ('a \<Rightarrow> 'b io) \<Rightarrow> 'b io" where
  "bind_io m f =
     (case m of
        (tr, Inl e) \<Rightarrow> (tr, Inl e)
      | (tr, Inr x) \<Rightarrow> (case f x of (tr', r) \<Rightarrow> (tr @ tr', r)))"

text \<open>One call of the environment: the event, then the call's result.\<close>

definition call_io :: "event \<Rightarrow> (exn + 'a) \<Rightarrow> 'a io" where
  "call_io ev r = ([ev], r)"

definition print :: "string \<Rightarrow> unit io" where
  "print s = call_io (Print s) (Inr ())"

subsection \<open>The environment\<close>

text \<open>
  \<open>'c\<close> is the type of a \<^verbatim>\<open>ChecksumFile\<close> object and \<open>'m\<close> the type of a parsed
  manifest; the package that defines them is not part of \<^verbatim>\<open>cli.py\<close>, so its
  operations are fields of the environment and every theorem holds for all of them.
\<close>

record ('c, 'm) env =
  os_listdir :: "string \<Rightarrow> exn + string list"
  os_path_exists :: "string \<Rightarrow> bool"
  open_read :: "string \<Rightarrow> exn + string"
  ChecksumFile_new :: "string \<Rightarrow> differ \<Rightarrow> exn + 'c"
  ChecksumFile_parse :: "'c \<Rightarrow> string \<Rightarrow> exn + 'm"
  ChecksumFile_verify :: "'c \<Rightarrow> 'm \<Rightarrow> bool \<Rightarrow> exn + unit"
  ChecksumFile_MODES :: "string list"

subsection \<open>Differ selection\<close>

text \<open>
  \<^verbatim>\<open>DIFFER_MAP = {'git': GitChecksumFileExistenceDiffer,
                'directory': DirectoryChecksumFileExistenceDiffer}\<close>
\<close>

definition DIFFER_MAP :: "(string \<times> differ) list" where
  "DIFFER_MAP =
     [(''git'', GitChecksumFileExistenceDiffer),
      (''directory'', DirectoryChecksumFileExistenceDiffer)]"

text \<open>
  \<^verbatim>\<open>root_files = os.listdir(project_root)
  if '.git' in root_files: return GitChecksumFileExistenceDiffer
  return DirectoryChecksumFileExistenceDiffer\<close>
\<close>

definition determine_differ_from_auto :: "('c, 'm) env \<Rightarrow> string \<Rightarrow> differ io" where
  "determine_differ_from_auto env project_root =
     bind_io (call_io (ListDir project_root) (os_listdir env project_root)) (\<lambda>root_files.
       if ''.git'' \<in> set root_files then return_io GitChecksumFileExistenceDiffer
       else return_io DirectoryChecksumFileExistenceDiffer)"

text \<open>
  \<^verbatim>\<open>if scm == 'auto': return determine_differ_from_auto(project_root)
  return DIFFER_MAP[scm]\<close>; a key that is missing raises \<^verbatim>\<open>KeyError\<close>.
\<close>

definition get_differ :: "('c, 'm) env \<Rightarrow> string \<Rightarrow> string \<Rightarrow> differ io" where
  "get_differ env scm project_root =
     (if scm = ''auto'' then determine_differ_from_auto env project_root
      else (case map_of DIFFER_MAP scm of
              Some d \<Rightarrow> return_io d
            | None \<Rightarrow> raise_io (KeyError scm)))"

subsection \<open>The handlers\<close>

text \<open>The attributes of \<^verbatim>\<open>args\<close> that \<^verbatim>\<open>validate_checksum\<close> reads.\<close>

record vc_args =
  scm :: string
  project_root :: string
  checksum_file :: string
  ignore_file_list_differences :: bool

text \<open>
  \<^verbatim>\<open>try: checksum.verify(manifest, diff=not args.ignore_file_list_differences)
  except ChecksumMismatch as e:
      print("Checksum validation FAILED!"); print(str(e)); return 2
  print("Checksum validation SUCCEEDED!")\<close>

  Only \<^verbatim>\<open>ChecksumMismatch\<close> is caught; the function ends without a \<^verbatim>\<open>return\<close> on
  success, so it returns \<^verbatim>\<open>None\<close>.
\<close>

definition verify_and_report :: "('c, 'm) env \<Rightarrow> 'c \<Rightarrow> 'm \<Rightarrow> bool \<Rightarrow> int option io" where
  "verify_and_report env checksum manifest ignore =
     (case call_io (Verify (\<not> ignore)) (ChecksumFile_verify env checksum manifest (\<not> ignore)) of
        (tr, Inl (ChecksumMismatch msg)) \<Rightarrow>
          bind_io (tr, Inr ()) (\<lambda>_.
          bind_io (print ''Checksum validation FAILED!'') (\<lambda>_.
          bind_io (print msg) (\<lambda>_.
          return_io (Some 2))))
      | (tr, Inl e) \<Rightarrow> (tr, Inl e)
      | (tr, Inr _) \<Rightarrow>
          bind_io (tr, Inr ()) (\<lambda>_.
          bind_io (print ''Checksum validation SUCCEEDED!'') (\<lambda>_.
          return_io None)))"

definition validate_checksum :: "('c, 'm) env \<Rightarrow> vc_args \<Rightarrow> int option io" where
  "validate_checksum env args =
     bind_io (get_differ env (scm args) (project_root args)) (\<lambda>differ.
     bind_io (call_io (NewChecksumFile (project_root args) differ)
                (ChecksumFile_new env (project_root args) differ)) (\<lambda>checksum.
     bind_io (call_io (PathExists (checksum_file args))
                (Inr (os_path_exists env (checksum_file args)))) (\<lambda>ex.
     if \<not> ex then
       bind_io (print (''Checksum file does not exist: '' @ checksum_file args)) (\<lambda>_.
       return_io (Some 1))
     else
       bind_io (call_io (OpenRead (checksum_file args))
                  (open_read env (checksum_file args))) (\<lambda>checksum_file_contents.
       bind_io (call_io (Parse checksum_file_contents)
                  (ChecksumFile_parse env checksum checksum_file_contents)) (\<lambda>manifest.
       verify_and_report env checksum manifest (ignore_file_list_differences args))))))"

text \<open>\<^verbatim>\<open>def validate_gpg_signature(args): print('hi')\<close>, and the same for
  \<^verbatim>\<open>checksum_manifest\<close>: the argument is not read, and \<^verbatim>\<open>None\<close> is returned.\<close>

definition validate_gpg_signature :: "'a \<Rightarrow> int option io" where
  "validate_gpg_signature args = bind_io (print ''hi'') (\<lambda>_. return_io None)"

definition checksum_manifest :: "'a \<Rightarrow> int option io" where
  "checksum_manifest args = bind_io (print ''hi'') (\<lambda>_. return_io None)"

subsection \<open>A model of \<^verbatim>\<open>argparse\<close>\<close>

text \<open>
  \<^verbatim>\<open>parse_args\<close> only configures the standard library's \<^verbatim>\<open>argparse\<close>: each
  \<^verbatim>\<open>add_argument\<close> call is a value of the record \<open>argument\<close> below, each
  \<^verbatim>\<open>add_parser\<close> a value of \<open>parser\<close>, and the library is an interpreter of these
  values. The interpreter covers what this parser uses: options that take no value
  (\<^verbatim>\<open>store_true\<close>, \<^verbatim>\<open>store_const\<close>, \<^verbatim>\<open>help\<close>, \<^verbatim>\<open>version\<close>) or exactly one value
  (\<^verbatim>\<open>store\<close>), positionals that take exactly one value, \<^verbatim>\<open>choices\<close>, defaults,
  \<^verbatim>\<open>set_defaults\<close>, required subcommands, the forms \<^verbatim>\<open>--opt value\<close> and
  \<^verbatim>\<open>--opt=value\<close>, unambiguous prefixes of long options, and the separator \<^verbatim>\<open>--\<close>.
  An error of the parser is \<^verbatim>\<open>SystemExit(2)\<close>, help and version are \<^verbatim>\<open>SystemExit(0)\<close>;
  the text \<^verbatim>\<open>argparse\<close> prints is not modelled.
\<close>

datatype handler = Fn_validate_checksum | Fn_validate_gpg_signature | Fn_checksum_manifest

datatype pyvalue = PyNone | PyStr string | PyBool bool | PyInt int | PyFunc handler

type_synonym namespace = "string \<Rightarrow> pyvalue option"

datatype action = Store | StoreTrue | StoreConst pyvalue | Help | Version

text \<open>\<open>default_val = None\<close> stands for \<^verbatim>\<open>argparse.SUPPRESS\<close>: no attribute is set.
  A positional has no option strings.\<close>

record argument =
  option_strings :: "string list"
  dest :: string
  action :: action
  default_val :: "pyvalue option"
  choices :: "string list option"

record parser =
  arguments :: "argument list"
  defaults :: "(string \<times> pyvalue) list"

record top_parser =
  top_arguments :: "argument list"
  subparsers_dest :: string
  subparsers :: "(string \<times> parser) list"

text \<open>How one command-line string is read: as an argument, as the separator, as an
  option (the matched argument, its option string, the value after \<^verbatim>\<open>=\<close> if any), as
  an option the parser does not know, or as an ambiguous prefix.\<close>

datatype tok_class =
    Arg
  | Sep
  | Opt argument string "string option"
  | Unknown
  | Ambiguous

definition option_table :: "argument list \<Rightarrow> (string \<times> argument) list" where
  "option_table as = concat (map (\<lambda>a. map (\<lambda>s. (s, a)) (option_strings a)) as)"

definition partition_eq :: "string \<Rightarrow> string \<times> string option" where
  "partition_eq s =
     (case dropWhile (\<lambda>c. c \<noteq> CHR ''='') s of
        [] \<Rightarrow> (s, None)
      | _ # v \<Rightarrow> (takeWhile (\<lambda>c. c \<noteq> CHR ''='') s, Some v))"

definition is_digit :: "char \<Rightarrow> bool" where
  "is_digit c = (c \<in> set ''0123456789'')"

text \<open>The pattern \<^verbatim>\<open>^-\d+$|^-\d*\.\d+$\<close> of \<^verbatim>\<open>argparse\<close>.\<close>

definition negative_number :: "string \<Rightarrow> bool" where
  "negative_number s =
     (case s of
        [] \<Rightarrow> False
      | c # r \<Rightarrow>
          c = CHR ''-'' \<and>
          ((r \<noteq> [] \<and> list_all is_digit r) \<or>
           (case dropWhile is_digit r of
              [] \<Rightarrow> False
            | d # f \<Rightarrow> d = CHR ''.'' \<and> f \<noteq> [] \<and> list_all is_digit f)))"

text \<open>
  \<^verbatim>\<open>_get_option_tuples\<close>: for a string that starts with two dashes, every option string
  that the part before \<^verbatim>\<open>=\<close> is a prefix of; for a string with one dash, the option
  string equal to its first two characters (the rest is then its value) and every
  option string it is a prefix of.
\<close>

definition get_option_tuples :: "(string \<times> argument) list \<Rightarrow> string \<Rightarrow> tok_class list" where
  "get_option_tuples tab s =
     (if take 2 s = ''--'' then
        (case partition_eq s of (option_prefix, explicit_arg) \<Rightarrow>
           map (\<lambda>(o_s, a). Opt a o_s explicit_arg)
             (filter (\<lambda>(o_s, a). prefix option_prefix o_s) tab))
      else
        concat (map (\<lambda>(o_s, a).
          if o_s = take 2 s then [Opt a o_s (Some (drop 2 s))]
          else if prefix s o_s then [Opt a o_s None]
          else []) tab))"

text \<open>\<^verbatim>\<open>_parse_optional\<close>, for a parser whose prefix character is \<^verbatim>\<open>-\<close> and none of
  whose options looks like a negative number.\<close>

definition parse_optional :: "(string \<times> argument) list \<Rightarrow> string \<Rightarrow> tok_class" where
  "parse_optional tab s =
     (if s = [] then Arg
      else if hd s \<noteq> CHR ''-'' then Arg
      else (case map_of tab s of
              Some a \<Rightarrow> Opt a s None
            | None \<Rightarrow>
                if length s = 1 then Arg
                else (case (case partition_eq s of
                              (n, Some v) \<Rightarrow> map_option (\<lambda>a. Opt a n (Some v)) (map_of tab n)
                            | (n, None) \<Rightarrow> None) of
                        Some c \<Rightarrow> c
                      | None \<Rightarrow>
                          (case get_option_tuples tab s of
                             [] \<Rightarrow> if negative_number s then Arg
                                   else if CHR '' '' \<in> set s then Arg
                                   else Unknown
                           | [c] \<Rightarrow> c
                           | _ \<Rightarrow> Ambiguous))))"

text \<open>Every string is classified before any action runs; after the first \<^verbatim>\<open>--\<close> all
  strings are arguments.\<close>

fun classify_all :: "(string \<times> argument) list \<Rightarrow> string list \<Rightarrow> tok_class list" where
  "classify_all tab [] = []"
| "classify_all tab (s # ss) =
     (if s = ''--'' then Sep # map (\<lambda>_. Arg) ss
      else parse_optional tab s # classify_all tab ss)"

definition check_value :: "argument \<Rightarrow> string \<Rightarrow> bool" where
  "check_value a v = (case choices a of None \<Rightarrow> True | Some cs \<Rightarrow> v \<in> set cs)"

definition takes_value :: "argument \<Rightarrow> bool" where
  "takes_value a = (action a = Store)"

text \<open>\<^verbatim>\<open>take_action\<close>: what an action does with the value it was given, if it takes
  one. A value outside \<^verbatim>\<open>choices\<close> is an error of the parser.\<close>

definition take_action :: "argument \<Rightarrow> string option \<Rightarrow> namespace \<Rightarrow> exn + namespace" where
  "take_action a v ns =
     (case action a of
        Store \<Rightarrow>
          (case v of
             None \<Rightarrow> Inl (SystemExit 2)
           | Some s \<Rightarrow> if check_value a s then Inr (ns(dest a \<mapsto> PyStr s))
                       else Inl (SystemExit 2))
      | StoreTrue \<Rightarrow> Inr (ns(dest a \<mapsto> PyBool True))
      | StoreConst c \<Rightarrow> Inr (ns(dest a \<mapsto> c))
      | Help \<Rightarrow> Inl (SystemExit 0)
      | Version \<Rightarrow> Inl (SystemExit 0))"

fun take_actions :: "argument list \<Rightarrow> namespace \<Rightarrow> exn + namespace" where
  "take_actions [] ns = Inr ns"
| "take_actions (a # as) ns =
     (case take_action a None ns of Inl e \<Rightarrow> Inl e | Inr ns' \<Rightarrow> take_actions as ns')"

text \<open>
  A single-dash option that takes no value and is followed by more characters
  (\<^verbatim>\<open>-hh\<close>): each further character must itself be such an option. No single-dash
  option of this parser takes a value, so that case of \<^verbatim>\<open>argparse\<close> is not modelled
  and is an error here. A further character that is no option (\<^verbatim>\<open>-hx\<close>) is an error
  as in Python 3.10; later releases set it aside and still run the actions before it,
  which for \<^verbatim>\<open>-h\<close>, the only single-dash option here, ends in \<^verbatim>\<open>SystemExit\<close> as
  well, with status 0 instead of 2.
\<close>

fun cluster :: "(string \<times> argument) list \<Rightarrow> string \<Rightarrow> argument list option" where
  "cluster tab [] = Some []"
| "cluster tab (c # cs) =
     (case map_of tab [CHR ''-'', c] of
        None \<Rightarrow> None
      | Some a \<Rightarrow> if takes_value a then None else map_option (Cons a) (cluster tab cs))"

text \<open>An option that takes no value: alone it acts; with \<^verbatim>\<open>=value\<close> it is an error
  (\<^verbatim>\<open>ignored explicit argument\<close>), unless it is a single-dash cluster.\<close>

definition consume_flag ::
  "(string \<times> argument) list \<Rightarrow> argument \<Rightarrow> string \<Rightarrow> string option \<Rightarrow> namespace \<Rightarrow> exn + namespace"
where
  "consume_flag tab a o_s explicit_arg ns =
     (case explicit_arg of
        None \<Rightarrow> take_action a None ns
      | Some e \<Rightarrow>
          if take 2 o_s = ''--'' then Inl (SystemExit 2)
          else (case cluster tab e of
                  None \<Rightarrow> Inl (SystemExit 2)
                | Some as \<Rightarrow> take_actions (a # as) ns))"

text \<open>
  The loop of \<^verbatim>\<open>_parse_known_args\<close> over the classified strings, for one parser.
  The state is the namespace, the positionals not yet filled, whether the previous
  string filled a positional (a \<^verbatim>\<open>--\<close> right after it belongs to it), and the strings
  nothing consumed (\<^verbatim>\<open>extras\<close>). An option that takes a value takes the string after
  \<^verbatim>\<open>=\<close> or else the next string, which must be an argument.
\<close>

fun consume ::
  "(string \<times> argument) list \<Rightarrow> namespace \<Rightarrow> argument list \<Rightarrow> bool \<Rightarrow> string list \<Rightarrow>
   (string \<times> tok_class) list \<Rightarrow> exn + (namespace \<times> argument list \<times> string list)"
where
  "consume tab ns ps adj ex [] = Inr (ns, ps, ex)"
| "consume tab ns ps adj ex ((s, Arg) # r) =
     (case ps of
        [] \<Rightarrow> consume tab ns ps False (ex @ [s]) r
      | p # ps' \<Rightarrow>
          (case take_action p (Some s) ns of
             Inl e \<Rightarrow> Inl e
           | Inr ns' \<Rightarrow> consume tab ns' ps' True ex r))"
| "consume tab ns ps adj ex ((s, Sep) # r) =
     (if adj then consume tab ns ps False ex r
      else (case ps of
              [] \<Rightarrow> consume tab ns ps False (ex @ [s]) r
            | p # ps' \<Rightarrow>
                (case r of
                   (v, Arg) # r' \<Rightarrow>
                     (case take_action p (Some v) ns of
                        Inl e \<Rightarrow> Inl e
                      | Inr ns' \<Rightarrow> consume tab ns' ps' False ex r')
                 | _ \<Rightarrow> consume tab ns ps False (ex @ [s]) r)))"
| "consume tab ns ps adj ex ((s, Unknown) # r) = consume tab ns ps False (ex @ [s]) r"
| "consume tab ns ps adj ex ((s, Ambiguous) # r) = Inl (SystemExit 2)"
| "consume tab ns ps adj ex ((s, Opt a o_s explicit_arg) # r) =
     (if takes_value a then
        (case explicit_arg of
           Some v \<Rightarrow>
             (case take_action a (Some v) ns of
                Inl e \<Rightarrow> Inl e
              | Inr ns' \<Rightarrow> consume tab ns' ps False ex r)
         | None \<Rightarrow>
             (case r of
                (v, Arg) # r' \<Rightarrow>
                  (case take_action a (Some v) ns of
                     Inl e \<Rightarrow> Inl e
                   | Inr ns' \<Rightarrow> consume tab ns' ps False ex r')
              | _ \<Rightarrow> Inl (SystemExit 2)))
      else
        (case consume_flag tab a o_s explicit_arg ns of
           Inl e \<Rightarrow> Inl e
         | Inr ns' \<Rightarrow> consume tab ns' ps False ex r))"

text \<open>The namespace a parser starts from: the default of every argument that has
  one, then the values of \<^verbatim>\<open>set_defaults\<close>, each only if the attribute is not set yet.\<close>

definition set_if_absent :: "string \<Rightarrow> pyvalue \<Rightarrow> namespace \<Rightarrow> namespace" where
  "set_if_absent k v ns = (if ns k = None then ns(k \<mapsto> v) else ns)"

definition initial_namespace :: "argument list \<Rightarrow> (string \<times> pyvalue) list \<Rightarrow> namespace" where
  "initial_namespace as ds =
     fold (\<lambda>(k, v). set_if_absent k v) ds
       (fold (\<lambda>a ns. case default_val a of None \<Rightarrow> ns | Some d \<Rightarrow> set_if_absent (dest a) d ns)
          as Map.empty)"

definition positionals :: "argument list \<Rightarrow> argument list" where
  "positionals as = filter (\<lambda>a. option_strings a = []) as"

text \<open>\<^verbatim>\<open>parse_known_args\<close> of a subcommand's parser: the namespace and the extras, or
  an error when a string is ambiguous, an action fails, or a positional is missing.\<close>

definition parse_known_args :: "parser \<Rightarrow> string list \<Rightarrow> exn + (namespace \<times> string list)" where
  "parse_known_args p args =
     (let tab = option_table (arguments p); cl = classify_all tab args in
      if Ambiguous \<in> set cl then Inl (SystemExit 2)
      else (case consume tab (initial_namespace (arguments p) (defaults p))
                   (positionals (arguments p)) False [] (zip args cl) of
              Inl e \<Rightarrow> Inl e
            | Inr (ns, ps, ex) \<Rightarrow> if ps \<noteq> [] then Inl (SystemExit 2) else Inr (ns, ex)))"

text \<open>
  The top-level parser: its options may only come before the subcommand, whose name
  must be a key of \<^verbatim>\<open>subparsers\<close>; every string after the name goes to that
  subcommand's parser, whose namespace is copied over the top-level one. A missing
  subcommand (\<^verbatim>\<open>required=True\<close>) and any unrecognized string are errors.
\<close>

fun consume_top ::
  "top_parser \<Rightarrow> namespace \<Rightarrow> string list \<Rightarrow> (string \<times> tok_class) list \<Rightarrow> exn + namespace"
where
  "consume_top P ns ex [] = Inl (SystemExit 2)"
| "consume_top P ns ex ((s, Arg) # r) =
     (case map_of (subparsers P) s of
        None \<Rightarrow> Inl (SystemExit 2)
      | Some sub \<Rightarrow>
          (case parse_known_args sub (map fst r) of
             Inl e \<Rightarrow> Inl e
           | Inr (subns, subex) \<Rightarrow>
               if ex @ subex \<noteq> [] then Inl (SystemExit 2)
               else Inr (ns(subparsers_dest P \<mapsto> PyStr s) ++ subns)))"
| "consume_top P ns ex ((s, Sep) # r) = Inl (SystemExit 2)"
| "consume_top P ns ex ((s, Unknown) # r) = consume_top P ns (ex @ [s]) r"
| "consume_top P ns ex ((s, Ambiguous) # r) = Inl (SystemExit 2)"
| "consume_top P ns ex ((s, Opt a o_s explicit_arg) # r) =
     (if takes_value a then Inl (SystemExit 2)
      else (case consume_flag (option_table (top_arguments P)) a o_s explicit_arg ns of
              Inl e \<Rightarrow> Inl e
            | Inr ns' \<Rightarrow> consume_top P ns' ex r))"

definition top_parse_args :: "top_parser \<Rightarrow> string list \<Rightarrow> exn + namespace" where
  "top_parse_args P args =
     (let tab = option_table (top_arguments P); cl = classify_all tab args in
      if Ambiguous \<in> set cl then Inl (SystemExit 2)
      else consume_top P
             (initial_namespace (top_arguments P) [(subparsers_dest P, PyNone)]) []
             (zip args cl))"

subsection \<open>\<^verbatim>\<open>parse_args\<close>: the parser that \<^verbatim>\<open>cli.py\<close> configures\<close>

text \<open>\<^verbatim>\<open>ArgumentParser\<close> and \<^verbatim>\<open>add_parser\<close> add \<^verbatim>\<open>-h/--help\<close> to every parser.\<close>

definition help_argument :: argument where
  "help_argument =
     \<lparr>option_strings = [''-h'', ''--help''], dest = ''help'', action = Help,
      default_val = None, choices = None\<rparr>"

text \<open>\<^verbatim>\<open>choices=list(DIFFER_MAP.keys()) + ['auto']\<close>, \<^verbatim>\<open>default="auto"\<close>; the same
  \<^verbatim>\<open>--scm\<close> is added to \<^verbatim>\<open>validate-checksum\<close> and to \<^verbatim>\<open>checksum-manifest\<close>.\<close>

definition scm_argument :: argument where
  "scm_argument =
     \<lparr>option_strings = [''--scm''], dest = ''scm'', action = Store,
      default_val = Some (PyStr ''auto''),
      choices = Some (map fst DIFFER_MAP @ [''auto''])\<rparr>"

text \<open>The four \<^verbatim>\<open>add_argument\<close> calls of \<^verbatim>\<open>validate-checksum\<close>.\<close>

definition vc_checksum_file :: argument where
  "vc_checksum_file =
     \<lparr>option_strings = [''--checksum-file''], dest = ''checksum_file'', action = Store,
      default_val = Some (PyStr ''sha256sum.txt''), choices = None\<rparr>"

definition vc_ignore :: argument where
  "vc_ignore =
     \<lparr>option_strings = [''--ignore-file-list-differences''],
      dest = ''ignore_file_list_differences'', action = StoreTrue,
      default_val = Some (PyBool False), choices = None\<rparr>"

definition vc_project_root :: argument where
  "vc_project_root =
     \<lparr>option_strings = [], dest = ''project_root'', action = Store,
      default_val = Some PyNone, choices = None\<rparr>"

definition cmd_validate_checksum :: parser where
  "cmd_validate_checksum =
     \<lparr>arguments = [help_argument, vc_checksum_file, scm_argument, vc_ignore, vc_project_root],
      defaults = [(''func'', PyFunc Fn_validate_checksum)]\<rparr>"

text \<open>The positional \<^verbatim>\<open>checksum_file\<close> is given \<^verbatim>\<open>default="sha256sum.txt"\<close>, but a
  positional without \<^verbatim>\<open>nargs\<close> is required all the same.\<close>

definition gpg_signature_file :: argument where
  "gpg_signature_file =
     \<lparr>option_strings = [''--signature-file''], dest = ''signature_file'', action = Store,
      default_val = Some (PyStr ''sha256sum.txt.sig''), choices = None\<rparr>"

definition gpg_checksum_file :: argument where
  "gpg_checksum_file =
     \<lparr>option_strings = [], dest = ''checksum_file'', action = Store,
      default_val = Some (PyStr ''sha256sum.txt''), choices = None\<rparr>"

definition cmd_validate_gpg_signature :: parser where
  "cmd_validate_gpg_signature =
     \<lparr>arguments = [help_argument, gpg_signature_file, gpg_checksum_file],
      defaults = [(''func'', PyFunc Fn_validate_gpg_signature)]\<rparr>"

text \<open>\<^verbatim>\<open>choices=ChecksumFile.MODES\<close>: the constant is defined outside \<^verbatim>\<open>cli.py\<close> and is a
  parameter here.\<close>

definition cm_algorithm :: "string list \<Rightarrow> argument" where
  "cm_algorithm MODES =
     \<lparr>option_strings = [''--algorithm''], dest = ''algorithm'', action = Store,
      default_val = Some (PyStr ''sha256''), choices = Some MODES\<rparr>"

definition cm_output :: argument where
  "cm_output =
     \<lparr>option_strings = [''--output''], dest = ''output'', action = Store,
      default_val = Some (PyStr ''-''), choices = None\<rparr>"

definition cmd_checksum_manifest :: "string list \<Rightarrow> parser" where
  "cmd_checksum_manifest MODES =
     \<lparr>arguments = [help_argument, cm_algorithm MODES, cm_output, scm_argument],
      defaults = [(''func'', PyFunc Fn_checksum_manifest)]\<rparr>"

text \<open>\<^verbatim>\<open>logging.DEBUG\<close> is 10, \<^verbatim>\<open>logging.INFO\<close> 20, \<^verbatim>\<open>logging.WARNING\<close> 30.\<close>

definition logging_DEBUG :: int where "logging_DEBUG = 10"
definition logging_INFO :: int where "logging_INFO = 20"
definition logging_WARNING :: int where "logging_WARNING = 30"

definition version_argument :: argument where
  "version_argument =
     \<lparr>option_strings = [''--version''], dest = ''version'', action = Version,
      default_val = None, choices = None\<rparr>"

definition debug_argument :: argument where
  "debug_argument =
     \<lparr>option_strings = [''--debug''], dest = ''loglevel'',
      action = StoreConst (PyInt logging_DEBUG),
      default_val = Some PyNone, choices = None\<rparr>"

definition cli_parser :: "string list \<Rightarrow> top_parser" where
  "cli_parser MODES =
     \<lparr>top_arguments = [help_argument, version_argument, debug_argument],
      subparsers_dest = ''command'',
      subparsers =
        [(''validate-checksum'', cmd_validate_checksum),
         (''validate-gpg-signature'', cmd_validate_gpg_signature),
         (''checksum-manifest'', cmd_checksum_manifest MODES)]\<rparr>"

definition parse_args :: "string list \<Rightarrow> string list \<Rightarrow> exn + namespace" where
  "parse_args MODES args = top_parse_args (cli_parser MODES) args"

subsection \<open>\<^verbatim>\<open>main\<close>\<close>

text \<open>
  \<^verbatim>\<open>setup_logging\<close> calls \<^verbatim>\<open>logging.basicConfig(level=loglevel, ...)\<close>: with
  \<^verbatim>\<open>None\<close> the root logger keeps the level \<^verbatim>\<open>WARNING\<close>. A record is emitted when
  its level is at least the configured one (time stamps are not modelled).
\<close>

definition setup_logging :: "int option \<Rightarrow> unit io" where
  "setup_logging loglevel = call_io (SetupLogging loglevel) (Inr ())"

definition logger_log :: "int option \<Rightarrow> int \<Rightarrow> string \<Rightarrow> unit io" where
  "logger_log loglevel lvl msg =
     (if (case loglevel of None \<Rightarrow> logging_WARNING | Some l \<Rightarrow> l) \<le> lvl
      then call_io (LogRecord lvl msg) (Inr ())
      else return_io ())"

text \<open>
  Reading the attributes of the namespace. The parser above always sets them with
  these types (lemmas below); for any other namespace the read is an exception.
\<close>

definition loglevel_of :: "namespace \<Rightarrow> exn + int option" where
  "loglevel_of ns =
     (case ns ''loglevel'' of
        Some PyNone \<Rightarrow> Inr None
      | Some (PyInt l) \<Rightarrow> Inr (Some l)
      | _ \<Rightarrow> Inl (AttributeError ''loglevel''))"

definition str_attr :: "namespace \<Rightarrow> string \<Rightarrow> string option" where
  "str_attr ns k = (case ns k of Some (PyStr s) \<Rightarrow> Some s | _ \<Rightarrow> None)"

definition bool_attr :: "namespace \<Rightarrow> string \<Rightarrow> bool option" where
  "bool_attr ns k = (case ns k of Some (PyBool b) \<Rightarrow> Some b | _ \<Rightarrow> None)"

definition vc_args_of :: "namespace \<Rightarrow> exn + vc_args" where
  "vc_args_of ns =
     (case str_attr ns ''scm'' of
        None \<Rightarrow> Inl (AttributeError ''scm'')
      | Some s \<Rightarrow>
     (case str_attr ns ''project_root'' of
        None \<Rightarrow> Inl (AttributeError ''project_root'')
      | Some r \<Rightarrow>
     (case str_attr ns ''checksum_file'' of
        None \<Rightarrow> Inl (AttributeError ''checksum_file'')
      | Some c \<Rightarrow>
     (case bool_attr ns ''ignore_file_list_differences'' of
        None \<Rightarrow> Inl (AttributeError ''ignore_file_list_differences'')
      | Some i \<Rightarrow>
          Inr \<lparr>scm = s, project_root = r, checksum_file = c,
               ignore_file_list_differences = i\<rparr>))))"

text \<open>\<^verbatim>\<open>args.func(args)\<close>\<close>

definition call_func :: "('c, 'm) env \<Rightarrow> namespace \<Rightarrow> int option io" where
  "call_func env ns =
     (case ns ''func'' of
        Some (PyFunc Fn_validate_checksum) \<Rightarrow>
          (case vc_args_of ns of
             Inl e \<Rightarrow> raise_io e
           | Inr a \<Rightarrow> validate_checksum env a)
      | Some (PyFunc Fn_validate_gpg_signature) \<Rightarrow> validate_gpg_signature ns
      | Some (PyFunc Fn_checksum_manifest) \<Rightarrow> checksum_manifest ns
      | _ \<Rightarrow> raise_io (AttributeError ''func''))"

text \<open>
  \<^verbatim>\<open>args = parse_args(args); setup_logging(args.loglevel)
  _logger.debug("Starting crazy calculations...")
  exitcode = args.func(args)
  _logger.info("Script ends here"); return exitcode\<close>
\<close>

definition main :: "('c, 'm) env \<Rightarrow> string list \<Rightarrow> int option io" where
  "main env args =
     (case parse_args (ChecksumFile_MODES env) args of
        Inl e \<Rightarrow> raise_io e
      | Inr ns \<Rightarrow>
          (case loglevel_of ns of
             Inl e \<Rightarrow> raise_io e
           | Inr loglevel \<Rightarrow>
               bind_io (setup_logging loglevel) (\<lambda>_.
               bind_io (logger_log loglevel logging_DEBUG ''Starting crazy calculations...'') (\<lambda>_.
               bind_io (call_func env ns) (\<lambda>exitcode.
               bind_io (logger_log loglevel logging_INFO ''Script ends here'') (\<lambda>_.
               return_io exitcode))))))"

text \<open>\<^verbatim>\<open>run\<close>: \<^verbatim>\<open>return main(sys.argv[1:])\<close>\<close>

definition run :: "('c, 'm) env \<Rightarrow> string list \<Rightarrow> int option io" where
  "run env argv = main env (drop 1 argv)"

subsection \<open>A file system as a tree\<close>

text \<open>
  An instance of the operating-system part of the environment, for the claims that
  speak of files, directories and nesting. \<open>resolve\<close> is the system's path lookup
  (relative paths are resolved against the working directory by the system, not by
  \<^verbatim>\<open>cli.py\<close>); \<^verbatim>\<open>os.listdir\<close> returns the names of a directory's entries and fails on a
  missing path or a file, \<^verbatim>\<open>os.path.exists\<close> holds of any node, and reading succeeds
  on a file. Permissions are not modelled.
\<close>

datatype node = File string | Dir "(string \<times> node) list"

definition fs_listdir :: "(string \<Rightarrow> node option) \<Rightarrow> string \<Rightarrow> exn + string list" where
  "fs_listdir resolve p =
     (case resolve p of
        None \<Rightarrow> Inl (FileNotFoundError p)
      | Some (File c) \<Rightarrow> Inl (NotADirectoryError p)
      | Some (Dir es) \<Rightarrow> Inr (map fst es))"

definition fs_exists :: "(string \<Rightarrow> node option) \<Rightarrow> string \<Rightarrow> bool" where
  "fs_exists resolve p = (resolve p \<noteq> None)"

definition fs_read :: "(string \<Rightarrow> node option) \<Rightarrow> string \<Rightarrow> exn + string" where
  "fs_read resolve p =
     (case resolve p of
        None \<Rightarrow> Inl (FileNotFoundError p)
      | Some (File c) \<Rightarrow> Inr c
      | Some (Dir es) \<Rightarrow> Inl (IsADirectoryError p))"

text \<open>
  Modelled from the spec: the constructor of \<^verbatim>\<open>ChecksumFile\<close>, which is not in
  \<^verbatim>\<open>cli.py\<close>. The spec gives its state at construction as the project root and the
  injected differ, and no failure; the object is that pair.
\<close>

definition ChecksumFile_init :: "string \<Rightarrow> differ \<Rightarrow> exn + (string \<times> differ)" where
  "ChecksumFile_init root d = Inr (root, d)"

definition fs_env ::
  "(string \<Rightarrow> node option) \<Rightarrow> (string \<times> differ \<Rightarrow> string \<Rightarrow> exn + 'm) \<Rightarrow>
   (string \<times> differ \<Rightarrow> 'm \<Rightarrow> bool \<Rightarrow> exn + unit) \<Rightarrow> string list \<Rightarrow> (string \<times> differ, 'm) env"
where
  "fs_env resolve parse verify MODES =
     \<lparr>os_listdir = fs_listdir resolve, os_path_exists = fs_exists resolve,
      open_read = fs_read resolve, ChecksumFile_new = ChecksumFile_init,
      ChecksumFile_parse = parse, ChecksumFile_verify = verify,
      ChecksumFile_MODES = MODES\<rparr>"

subsection \<open>Concrete environments\<close>

text \<open>
  A small tree: \<^verbatim>\<open>repo\<close> holds a regular file named \<^verbatim>\<open>.git\<close>; \<^verbatim>\<open>plain\<close> holds
  \<^verbatim>\<open>.git\<close> only below a subdirectory; \<^verbatim>\<open>sha256sum.txt\<close> is a manifest file in the
  working directory; nothing else exists. The stand-ins for \<^verbatim>\<open>parse\<close> and
  \<^verbatim>\<open>verify\<close> return the text unchanged and succeed, or report a mismatch.
\<close>

definition example_resolve :: "string \<Rightarrow> node option" where
  "example_resolve p =
     (if p = ''repo'' then Some (Dir [(''.git'', File ''gitdir: elsewhere''), (''a.txt'', File ''hi'')])
      else if p = ''plain'' then
        Some (Dir [(''a.txt'', File ''hi''), (''sub'', Dir [(''.git'', Dir [])])])
      else if p = ''sha256sum.txt'' then Some (File ''00  a.txt'')
      else None)"

definition example_env :: "(string \<times> differ, string) env" where
  "example_env =
     fs_env example_resolve (\<lambda>c text. Inr text) (\<lambda>c m diff. Inr ()) [''sha256'']"

definition mismatch_env :: "(string \<times> differ, string) env" where
  "mismatch_env =
     fs_env example_resolve (\<lambda>c text. Inr text)
       (\<lambda>c m diff. Inl (ChecksumMismatch ''changed: a.txt'')) [''sha256'']"

text \<open>Arguments of \<^verbatim>\<open>validate_checksum\<close> used in the examples below.\<close>

definition missing_args :: vc_args where
  "missing_args =
     \<lparr>scm = ''auto'', project_root = ''plain'', checksum_file = ''absent.txt'',
      ignore_file_list_differences = False\<rparr>"




section \<open>Properties\<close>

subsection \<open>Effects in sequence\<close>

lemma bind_io_simps:
  "bind_io (tr, Inl e) f = (tr, Inl e)"
  "bind_io (tr, Inr x) f = (tr @ fst (f x), snd (f x))"
  by (simp_all add: bind_io_def split: prod.splits)

lemmas io_defs = return_io_def raise_io_def call_io_def print_def

subsection \<open>Differ selection\<close>

lemma determine_differ_from_auto_eq:
  "determine_differ_from_auto env root =
     ([ListDir root],
      map_sum id (\<lambda>names. if ''.git'' \<in> set names then GitChecksumFileExistenceDiffer
                           else DirectoryChecksumFileExistenceDiffer)
        (os_listdir env root))"
  by (cases "os_listdir env root")
     (simp_all add: determine_differ_from_auto_def io_defs bind_io_simps)

lemma get_differ_auto:
  "get_differ env ''auto'' root = determine_differ_from_auto env root"
  by (simp add: get_differ_def)

lemma get_differ_git:
  "get_differ env ''git'' root = ([], Inr GitChecksumFileExistenceDiffer)"
  by (simp add: get_differ_def DIFFER_MAP_def io_defs)

lemma get_differ_directory:
  "get_differ env ''directory'' root = ([], Inr DirectoryChecksumFileExistenceDiffer)"
  by (simp add: get_differ_def DIFFER_MAP_def io_defs)

lemma get_differ_events:
  "get_differ env s root = (tr, r) \<Longrightarrow> set tr \<subseteq> {ListDir root}"
  by (auto simp: get_differ_def determine_differ_from_auto_eq io_defs
           split: if_splits option.splits)

lemma example_listdir:
  "os_listdir example_env ''repo'' = Inr [''.git'', ''a.txt'']"
  "os_listdir example_env ''plain'' = Inr [''a.txt'', ''sub'']"
  "os_listdir example_env ''nowhere'' = Inl (FileNotFoundError ''nowhere'')"
  by (simp_all add: example_env_def fs_env_def fs_listdir_def example_resolve_def)

lemma example_exists:
  "os_path_exists example_env ''sha256sum.txt''"
  "\<not> os_path_exists example_env ''absent.txt''"
  by (simp_all add: example_env_def fs_env_def fs_exists_def example_resolve_def)

lemma example_new:
  "ChecksumFile_new example_env root d = Inr (root, d)"
  by (simp add: example_env_def fs_env_def ChecksumFile_init_def)


text \<open>
  Claim C1. With the choice \<^verbatim>\<open>auto\<close>, \<^verbatim>\<open>get_differ\<close> lists the project root once
  and does nothing else: if the listing succeeds, the differ is the git differ when
  the name \<^verbatim>\<open>.git\<close> is among the names returned and the directory differ otherwise
  (a failed listing is raised). With the choice \<^verbatim>\<open>git\<close> or \<^verbatim>\<open>directory\<close> the differ
  is the one named, whatever the environment and the root are, and no event occurs:
  the project root is not inspected.
\<close>

theorem differ_selection:
  "get_differ env ''auto'' root =
     ([ListDir root],
      map_sum id (\<lambda>names. if ''.git'' \<in> set names then GitChecksumFileExistenceDiffer
                           else DirectoryChecksumFileExistenceDiffer)
        (os_listdir env root))
   \<and> get_differ env ''git'' root = ([], Inr GitChecksumFileExistenceDiffer)
   \<and> get_differ env ''directory'' root = ([], Inr DirectoryChecksumFileExistenceDiffer)"
  by (simp add: get_differ_auto determine_differ_from_auto_eq get_differ_git
        get_differ_directory)

theorem differ_selection_witness:
  "get_differ example_env ''auto'' ''repo'' =
     ([ListDir ''repo''], Inr GitChecksumFileExistenceDiffer)
   \<and> get_differ example_env ''auto'' ''plain'' =
       ([ListDir ''plain''], Inr DirectoryChecksumFileExistenceDiffer)
   \<and> get_differ example_env ''git'' ''plain'' = ([], Inr GitChecksumFileExistenceDiffer)
   \<and> get_differ example_env ''directory'' ''repo'' =
       ([], Inr DirectoryChecksumFileExistenceDiffer)"
  using differ_selection [of example_env "''repo''"]
        differ_selection [of example_env "''plain''"]
  by (simp add: example_listdir)

text \<open>
  Claim C8. On the tree file system, when the project root is a directory with
  entries \<open>es\<close>, automatic detection lists the root and decides by the names of
  \<open>es\<close> alone: a regular file named \<^verbatim>\<open>.git\<close> selects the git differ, and when no
  immediate entry has that name the directory differ is selected, whatever the
  entries contain further down.
\<close>

theorem auto_detection_by_name:
  assumes "resolve root = Some (Dir es)"
  shows "determine_differ_from_auto (fs_env resolve parse verify MODES) root =
           ([ListDir root],
            Inr (if ''.git'' \<in> fst ` set es then GitChecksumFileExistenceDiffer
                 else DirectoryChecksumFileExistenceDiffer))
         \<and> ((''.git'', File c) \<in> set es \<longrightarrow>
              snd (determine_differ_from_auto (fs_env resolve parse verify MODES) root) =
                Inr GitChecksumFileExistenceDiffer)
         \<and> ((\<forall>(name, n) \<in> set es. name \<noteq> ''.git'') \<longrightarrow>
              snd (determine_differ_from_auto (fs_env resolve parse verify MODES) root) =
                Inr DirectoryChecksumFileExistenceDiffer)"
  using assms
  by (auto simp: determine_differ_from_auto_eq fs_env_def fs_listdir_def image_iff)

theorem auto_detection_by_name_witness:
  "example_resolve ''repo'' =
     Some (Dir [(''.git'', File ''gitdir: elsewhere''), (''a.txt'', File ''hi'')])
   \<and> snd (determine_differ_from_auto example_env ''repo'') = Inr GitChecksumFileExistenceDiffer
   \<and> example_resolve ''plain'' =
       Some (Dir [(''a.txt'', File ''hi''), (''sub'', Dir [(''.git'', Dir [])])])
   \<and> snd (determine_differ_from_auto example_env ''plain'') =
       Inr DirectoryChecksumFileExistenceDiffer"
proof -
  have r: "example_resolve ''repo'' =
      Some (Dir [(''.git'', File ''gitdir: elsewhere''), (''a.txt'', File ''hi'')])"
    by (simp add: example_resolve_def)
  have p: "example_resolve ''plain'' =
      Some (Dir [(''a.txt'', File ''hi''), (''sub'', Dir [(''.git'', Dir [])])])"
    by (simp add: example_resolve_def)
  show ?thesis
    using auto_detection_by_name [where resolve = example_resolve and root = "''repo''"
            and c = "''gitdir: elsewhere''"
            and parse = "\<lambda>c text. Inr text" and verify = "\<lambda>c m diff. Inr ()"
            and MODES = "[''sha256'']", OF r]
          auto_detection_by_name [where resolve = example_resolve and root = "''plain''"
            and c = "[]"
            and parse = "\<lambda>c text. Inr text" and verify = "\<lambda>c m diff. Inr ()"
            and MODES = "[''sha256'']", OF p]
          r p
    by (simp add: example_env_def)
qed

subsection \<open>\<^verbatim>\<open>validate_checksum\<close>\<close>


lemma validate_checksum_differ_fails:
  "get_differ env (scm a) (project_root a) = (tr, Inl e) \<Longrightarrow>
   validate_checksum env a = (tr, Inl e)"
  by (simp add: validate_checksum_def bind_io_simps)

lemma validate_checksum_new_fails:
  "get_differ env (scm a) (project_root a) = (tr, Inr d) \<Longrightarrow>
   ChecksumFile_new env (project_root a) d = Inl e \<Longrightarrow>
   validate_checksum env a = (tr @ [NewChecksumFile (project_root a) d], Inl e)"
  by (simp add: validate_checksum_def bind_io_simps io_defs)

lemma validate_checksum_after_differ:
  assumes "get_differ env (scm a) (project_root a) = (tr, Inr d)"
      and "ChecksumFile_new env (project_root a) d = Inr c"
  shows "validate_checksum env a =
     (if \<not> os_path_exists env (checksum_file a) then
        (tr @ [NewChecksumFile (project_root a) d, PathExists (checksum_file a),
               Print (''Checksum file does not exist: '' @ checksum_file a)], Inr (Some 1))
      else (case open_read env (checksum_file a) of
         Inl e \<Rightarrow> (tr @ [NewChecksumFile (project_root a) d, PathExists (checksum_file a),
                          OpenRead (checksum_file a)], Inl e)
       | Inr text \<Rightarrow>
          (case ChecksumFile_parse env c text of
             Inl e \<Rightarrow> (tr @ [NewChecksumFile (project_root a) d, PathExists (checksum_file a),
                          OpenRead (checksum_file a), Parse text], Inl e)
           | Inr m \<Rightarrow>
              (case verify_and_report env c m (ignore_file_list_differences a) of
                 (tr', r) \<Rightarrow>
                   (tr @ [NewChecksumFile (project_root a) d, PathExists (checksum_file a),
                          OpenRead (checksum_file a), Parse text] @ tr', r)))))"
  using assms
  by (simp add: validate_checksum_def io_defs bind_io_simps split: sum.splits prod.splits)


lemma example_get_differ_missing:
  "get_differ example_env (scm missing_args) (project_root missing_args) =
     ([ListDir ''plain''], Inr DirectoryChecksumFileExistenceDiffer)"
  by (simp add: missing_args_def get_differ_auto determine_differ_from_auto_eq example_listdir)




text \<open>
  Claim C9. When the checksum file does not exist, \<^verbatim>\<open>validate_checksum\<close> is exactly:
  the differ selection (whose only possible event is the listing of the project
  root, and whose exception, if any, is raised), the construction of the
  \<^verbatim>\<open>ChecksumFile\<close>, then the existence check, the message and the return value 1.
  The listing therefore precedes the existence check, and the trace has no opening
  or reading of the checksum file, no parsing and no call of \<^verbatim>\<open>verify\<close>.
\<close>

theorem checksum_file_missing:
  assumes "\<not> os_path_exists env (checksum_file a)"
  shows "validate_checksum env a =
     (case get_differ env (scm a) (project_root a) of
        (tr, Inl e) \<Rightarrow> (tr, Inl e)
      | (tr, Inr d) \<Rightarrow>
          (case ChecksumFile_new env (project_root a) d of
             Inl e \<Rightarrow> (tr @ [NewChecksumFile (project_root a) d], Inl e)
           | Inr c \<Rightarrow>
               (tr @ [NewChecksumFile (project_root a) d, PathExists (checksum_file a),
                      Print (''Checksum file does not exist: '' @ checksum_file a)],
                Inr (Some 1))))
     \<and> set (fst (get_differ env (scm a) (project_root a))) \<subseteq> {ListDir (project_root a)}
     \<and> (\<forall>ev \<in> set (fst (validate_checksum env a)).
          (\<forall>p. ev \<noteq> OpenRead p) \<and> (\<forall>t. ev \<noteq> Parse t) \<and> (\<forall>b. ev \<noteq> Verify b))"
proof -
  obtain tr r where g: "get_differ env (scm a) (project_root a) = (tr, r)"
    by (cases "get_differ env (scm a) (project_root a)")
  have sub: "set tr \<subseteq> {ListDir (project_root a)}"
    using get_differ_events [OF g] .
  show ?thesis
  proof (cases r)
    case (Inl e)
    with g sub show ?thesis
      by (auto simp: validate_checksum_differ_fails)
  next
    case (Inr d)
    note d = this
    show ?thesis
    proof (cases "ChecksumFile_new env (project_root a) d")
      case (Inl e)
      with g d sub show ?thesis
        by (auto simp: validate_checksum_new_fails)
    next
      case (Inr c)
      with g d sub assms show ?thesis
        by (auto simp: validate_checksum_after_differ)
    qed
  qed
qed

theorem checksum_file_missing_witness:
  "\<not> os_path_exists example_env (checksum_file missing_args)
   \<and> validate_checksum example_env missing_args =
       ([ListDir ''plain'', NewChecksumFile ''plain'' DirectoryChecksumFileExistenceDiffer,
         PathExists ''absent.txt'', Print ''Checksum file does not exist: absent.txt''],
        Inr (Some 1))"
proof -
  have h: "\<not> os_path_exists example_env (checksum_file missing_args)"
    by (simp add: missing_args_def example_exists)
  show ?thesis
    using checksum_file_missing [OF h] h
    by (simp add: example_get_differ_missing example_new) (simp add: missing_args_def)
qed







subsection \<open>The loop of the parser keeps invariants\<close>

lemma take_actions_invariant:
  assumes "take_actions as ns = Inr ns'" and "P ns" and "\<forall>a \<in> set as. Q a"
      and step: "\<And>a v n n'. Q a \<Longrightarrow> P n \<Longrightarrow> take_action a v n = Inr n' \<Longrightarrow> P n'"
  shows "P ns'"
  using assms(1-3)
proof (induction as arbitrary: ns)
  case Nil
  then show ?case by simp
next
  case (Cons a as)
  then show ?case
    by (auto split: sum.splits intro: step)
qed

lemma cluster_short:
  "cluster tab e = Some as \<Longrightarrow> a \<in> set as \<Longrightarrow> \<exists>c. map_of tab [CHR ''-'', c] = Some a"
proof (induction e arbitrary: as)
  case Nil
  then show ?case by simp
next
  case (Cons c cs)
  then show ?case
    by (auto split: option.splits if_splits)
qed

lemma consume_flag_invariant:
  assumes "consume_flag tab a o_s e ns = Inr ns'" and "P ns" and "Q a"
      and short: "\<And>c b. map_of tab [CHR ''-'', c] = Some b \<Longrightarrow> Q b"
      and step: "\<And>a v n n'. Q a \<Longrightarrow> P n \<Longrightarrow> take_action a v n = Inr n' \<Longrightarrow> P n'"
  shows "P ns'"
proof (cases e)
  case None
  with assms(1-3) show ?thesis
    by (auto simp: consume_flag_def intro: step)
next
  case (Some v)
  with assms(1) obtain as where c: "cluster tab v = Some as"
    and t: "take_actions (a # as) ns = Inr ns'"
    by (auto simp: consume_flag_def split: if_splits option.splits)
  have q: "\<forall>b \<in> set (a # as). Q b"
    using cluster_short [OF c] short \<open>Q a\<close> by auto
  show ?thesis
    by (rule take_actions_invariant [where P = P and Q = Q, OF t \<open>P ns\<close> q]) (rule step)
qed

lemma consume_invariant:
  assumes "consume tab ns ps adj ex toks = Inr (ns', ps', ex')"
      and "P ns ps"
      and opts: "\<forall>s a o_s e. (s, Opt a o_s e) \<in> set toks \<longrightarrow> Q a"
      and short: "\<forall>c b. map_of tab [CHR ''-'', c] = Some b \<longrightarrow> Q b"
      and step: "\<And>a v n n' ps. Q a \<Longrightarrow> P n ps \<Longrightarrow> take_action a v n = Inr n' \<Longrightarrow> P n' ps"
      and pos: "\<And>p v n n' ps. P n (p # ps) \<Longrightarrow> take_action p (Some v) n = Inr n' \<Longrightarrow> P n' ps"
  shows "P ns' ps'"
  using assms(1-4)
proof (induction tab ns ps adj ex toks rule: consume.induct)
  case (1 tab ns ps adj ex)
  then show ?case by simp
next
  case (2 tab ns ps adj ex s r)
  show ?case
  proof (cases ps)
    case Nil
    with "2.prems"(1) have c: "consume tab ns ps False (ex @ [s]) r = Inr (ns', ps', ex')"
      by simp
    have o: "\<forall>s a o_s e. (s, Opt a o_s e) \<in> set r \<longrightarrow> Q a"
      using "2.prems"(3) by auto
    show ?thesis by (rule "2.IH"(1) [OF Nil c "2.prems"(2) o "2.prems"(4)])
  next
    case (Cons p ps0)
    with "2.prems"(1) obtain n1 where t: "take_action p (Some s) ns = Inr n1"
      and c: "consume tab n1 ps0 True ex r = Inr (ns', ps', ex')"
      by (auto split: sum.splits)
    have p1: "P n1 ps0" using pos [OF _ t] "2.prems"(2) Cons by simp
    have o: "\<forall>s a o_s e. (s, Opt a o_s e) \<in> set r \<longrightarrow> Q a"
      using "2.prems"(3) by auto
    show ?thesis by (rule "2.IH"(2) [OF Cons t c p1 o "2.prems"(4)])
  qed
next
  case (3 tab ns ps adj ex s r)
  have o: "\<forall>s a o_s e. (s, Opt a o_s e) \<in> set r \<longrightarrow> Q a"
    using "3.prems"(3) by auto
  show ?case
  proof (cases adj)
    case True
    with "3.prems"(1) have c: "consume tab ns ps False ex r = Inr (ns', ps', ex')"
      by simp
    show ?thesis by (rule "3.IH"(1) [OF True c "3.prems"(2) o "3.prems"(4)])
  next
    case False
    note adj = this
    show ?thesis
    proof (cases ps)
      case Nil
      with "3.prems"(1) adj have c: "consume tab ns ps False (ex @ [s]) r = Inr (ns', ps', ex')"
        by simp
      show ?thesis by (rule "3.IH"(2) [OF adj Nil c "3.prems"(2) o "3.prems"(4)])
    next
      case (Cons p ps0)
      note ps = this
      show ?thesis
      proof (cases r)
        case Nil
        with "3.prems"(1) adj ps
        have c: "consume tab ns ps False (ex @ [s]) r = Inr (ns', ps', ex')"
          by simp
        show ?thesis by (rule "3.IH"(3) [OF adj ps Nil c "3.prems"(2) o "3.prems"(4)])
      next
        case (Cons x r')
        note r = this
        obtain v cl where x: "(v, cl) = x" by (cases x) auto
        have o': "\<forall>s a o_s e. (s, Opt a o_s e) \<in> set r' \<longrightarrow> Q a"
          using o r by auto
        show ?thesis
        proof (cases cl)
          case Arg
          from "3.prems"(1) obtain n1 where t: "take_action p (Some v) ns = Inr n1"
            and c: "consume tab n1 ps0 False ex r' = Inr (ns', ps', ex')"
            unfolding r ps x [symmetric] Arg using adj by (auto split: sum.splits)
          have p1: "P n1 ps0" using pos [OF _ t] "3.prems"(2) ps by simp
          show ?thesis by (rule "3.IH"(4) [OF adj ps r x Arg t c p1 o' "3.prems"(4)])
        next
          case Sep
          with "3.prems"(1) adj ps r x
          have c: "consume tab ns ps False (ex @ [s]) r = Inr (ns', ps', ex')"
            by auto
          show ?thesis by (rule "3.IH"(5) [OF adj ps r x Sep c "3.prems"(2) o "3.prems"(4)])
        next
          case (Opt a1 o1 e1)
          with "3.prems"(1) adj ps r x
          have c: "consume tab ns ps False (ex @ [s]) r = Inr (ns', ps', ex')"
            by auto
          show ?thesis by (rule "3.IH"(6) [OF adj ps r x Opt c "3.prems"(2) o "3.prems"(4)])
        next
          case Unknown
          with "3.prems"(1) adj ps r x
          have c: "consume tab ns ps False (ex @ [s]) r = Inr (ns', ps', ex')"
            by auto
          show ?thesis by (rule "3.IH"(7) [OF adj ps r x Unknown c "3.prems"(2) o "3.prems"(4)])
        next
          case Ambiguous
          with "3.prems"(1) adj ps r x
          have c: "consume tab ns ps False (ex @ [s]) r = Inr (ns', ps', ex')"
            by auto
          show ?thesis by (rule "3.IH"(8) [OF adj ps r x Ambiguous c "3.prems"(2) o "3.prems"(4)])
        qed
      qed
    qed
  qed
next
  case (4 tab ns ps adj ex s r)
  have o: "\<forall>s a o_s e. (s, Opt a o_s e) \<in> set r \<longrightarrow> Q a"
    using "4.prems"(3) by auto
  from "4.prems"(1) have c: "consume tab ns ps False (ex @ [s]) r = Inr (ns', ps', ex')"
    by simp
  show ?case by (rule "4.IH" [OF c "4.prems"(2) o "4.prems"(4)])
next
  case (5 tab ns ps adj ex s r)
  then show ?case by simp
next
  case (6 tab ns ps adj ex s a o_s explicit_arg r)
  have Qa: "Q a" using "6.prems"(3) by auto
  have o: "\<forall>s a o_s e. (s, Opt a o_s e) \<in> set r \<longrightarrow> Q a"
    using "6.prems"(3) by auto
  show ?case
  proof (cases "takes_value a")
    case True
    note tv = this
    show ?thesis
    proof (cases explicit_arg)
      case (Some v)
      with "6.prems"(1) tv obtain n1 where t: "take_action a (Some v) ns = Inr n1"
        and c: "consume tab n1 ps False ex r = Inr (ns', ps', ex')"
        by (auto split: sum.splits)
      have p1: "P n1 ps" using step [OF Qa "6.prems"(2) t] .
      show ?thesis by (rule "6.IH"(2) [OF tv Some t c p1 o "6.prems"(4)])
    next
      case None
      with "6.prems"(1) tv obtain v r' n1 where r: "r = (v, Arg) # r'"
        and t: "take_action a (Some v) ns = Inr n1"
        and c: "consume tab n1 ps False ex r' = Inr (ns', ps', ex')"
        by (auto split: sum.splits list.splits tok_class.splits prod.splits)
      have p1: "P n1 ps" using step [OF Qa "6.prems"(2) t] .
      have o': "\<forall>s a o_s e. (s, Opt a o_s e) \<in> set r' \<longrightarrow> Q a"
        using o r by auto
      show ?thesis by (rule "6.IH"(1) [OF tv None r refl refl t c p1 o' "6.prems"(4)])
    qed
  next
    case False
    with "6.prems"(1) obtain n1 where t: "consume_flag tab a o_s explicit_arg ns = Inr n1"
      and c: "consume tab n1 ps False ex r = Inr (ns', ps', ex')"
      by (auto split: sum.splits)
    have p1: "P n1 ps"
      by (rule consume_flag_invariant [where P = "\<lambda>n. P n ps" and Q = Q, OF t "6.prems"(2) Qa])
         (use "6.prems"(4) in \<open>auto intro: step\<close>)
    show ?thesis by (rule "6.IH"(3) [OF False t c p1 o "6.prems"(4)])
  qed
qed

subsection \<open>Classification of command-line strings\<close>

lemma length_classify_all [simp]: "length (classify_all tab args) = length args"
  by (induction args) auto

lemma classify_all_Opt:
  "(s, Opt a o_s e) \<in> set (zip args (classify_all tab args)) \<Longrightarrow>
   s \<in> set args \<and> s \<noteq> ''--'' \<and> parse_optional tab s = Opt a o_s e"
proof (induction args)
  case Nil
  then show ?case by simp
next
  case (Cons x xs)
  show ?case
  proof (cases "x = ''--''")
    case True
    with Cons.prems have "(s, Opt a o_s e) \<in> set (zip xs (map (\<lambda>_. Arg) xs))"
      by simp
    then have "Opt a o_s e \<in> set (map (\<lambda>_. Arg) xs)"
      by (rule set_zip_rightD)
    then show ?thesis by auto
  next
    case False
    with Cons.prems have "(s = x \<and> parse_optional tab x = Opt a o_s e)
        \<or> (s, Opt a o_s e) \<in> set (zip xs (classify_all tab xs))"
      by auto
    with Cons.IH False show ?thesis by auto
  qed
qed

lemma map_of_option_table:
  "map_of (option_table as) s = Some a \<Longrightarrow> a \<in> set as \<and> s \<in> set (option_strings a)"
  by (auto simp: option_table_def dest!: map_of_SomeD)


lemma parse_optional_cases:
  assumes "parse_optional tab s = Opt a o_s e"
  shows "(o_s = s \<and> map_of tab s = Some a)
         \<or> (o_s = fst (partition_eq s) \<and> map_of tab o_s = Some a)
         \<or> get_option_tuples tab s = [Opt a o_s e]"
proof (cases "map_of tab s")
  case (Some b)
  with assms show ?thesis
    by (simp add: parse_optional_def split: if_splits)
next
  case None
  note m = this
  obtain n v where pe: "partition_eq s = (n, v)" by (cases "partition_eq s")
  show ?thesis
  proof (cases "\<exists>w b. v = Some w \<and> map_of tab n = Some b")
    case True
    then obtain w b where "v = Some w" "map_of tab n = Some b" by blast
    with assms m pe show ?thesis
      by (simp add: parse_optional_def split: if_splits)
  next
    case False
    then have "(case (n, v) of (n, Some v) \<Rightarrow> map_option (\<lambda>a. Opt a n (Some v)) (map_of tab n)
                 | (n, None) \<Rightarrow> None) = None"
      by (cases v) auto
    with assms m pe have "(case get_option_tuples tab s of
         [] \<Rightarrow> if negative_number s then Arg else if CHR '' '' \<in> set s then Arg else Unknown
       | [c] \<Rightarrow> c | _ \<Rightarrow> Ambiguous) = Opt a o_s e"
      by (simp add: parse_optional_def split: if_splits)
    then have "get_option_tuples tab s = [Opt a o_s e]"
      by (simp split: list.splits if_splits)
    then show ?thesis by simp
  qed
qed

lemma get_option_tuples_in_table:
  "Opt a o_s e \<in> set (get_option_tuples tab s) \<Longrightarrow> (o_s, a) \<in> set tab"
  by (auto simp: get_option_tuples_def split: if_splits prod.splits)

lemma parse_optional_in_table:
  assumes "parse_optional tab s = Opt a o_s e"
  shows "(o_s, a) \<in> set tab"
  using parse_optional_cases [OF assms] get_option_tuples_in_table [of a o_s e tab s]
  by (auto dest: map_of_SomeD)








subsection \<open>The parsers of \<^verbatim>\<open>cli.py\<close>\<close>

lemmas argument_defs = help_argument_def scm_argument_def vc_checksum_file_def vc_ignore_def
  vc_project_root_def gpg_signature_file_def gpg_checksum_file_def cm_algorithm_def
  cm_output_def version_argument_def debug_argument_def

lemma vc_table:
  "option_table (arguments cmd_validate_checksum) =
     [(''-h'', help_argument), (''--help'', help_argument),
      (''--checksum-file'', vc_checksum_file), (''--scm'', scm_argument),
      (''--ignore-file-list-differences'', vc_ignore)]"
  by (simp add: option_table_def cmd_validate_checksum_def argument_defs)

lemma gpg_table:
  "option_table (arguments cmd_validate_gpg_signature) =
     [(''-h'', help_argument), (''--help'', help_argument),
      (''--signature-file'', gpg_signature_file)]"
  by (simp add: option_table_def cmd_validate_gpg_signature_def argument_defs)

lemma cm_table:
  "option_table (arguments (cmd_checksum_manifest MODES)) =
     [(''-h'', help_argument), (''--help'', help_argument),
      (''--algorithm'', cm_algorithm MODES), (''--output'', cm_output),
      (''--scm'', scm_argument)]"
  by (simp add: option_table_def cmd_checksum_manifest_def argument_defs)

lemma top_table:
  "option_table (top_arguments (cli_parser MODES)) =
     [(''-h'', help_argument), (''--help'', help_argument),
      (''--version'', version_argument), (''--debug'', debug_argument)]"
  by (simp add: option_table_def cli_parser_def argument_defs)

lemma vc_initial:
  "initial_namespace (arguments cmd_validate_checksum) (defaults cmd_validate_checksum) =
     Map.empty(''checksum_file'' \<mapsto> PyStr ''sha256sum.txt'', ''scm'' \<mapsto> PyStr ''auto'',
       ''ignore_file_list_differences'' \<mapsto> PyBool False, ''project_root'' \<mapsto> PyNone,
       ''func'' \<mapsto> PyFunc Fn_validate_checksum)"
  by (simp add: initial_namespace_def cmd_validate_checksum_def argument_defs set_if_absent_def)

lemma gpg_initial:
  "initial_namespace (arguments cmd_validate_gpg_signature) (defaults cmd_validate_gpg_signature) =
     Map.empty(''signature_file'' \<mapsto> PyStr ''sha256sum.txt.sig'',
       ''checksum_file'' \<mapsto> PyStr ''sha256sum.txt'',
       ''func'' \<mapsto> PyFunc Fn_validate_gpg_signature)"
  by (simp add: initial_namespace_def cmd_validate_gpg_signature_def argument_defs
        set_if_absent_def)

lemma cm_initial:
  "initial_namespace (arguments (cmd_checksum_manifest MODES))
       (defaults (cmd_checksum_manifest MODES)) =
     Map.empty(''algorithm'' \<mapsto> PyStr ''sha256'', ''output'' \<mapsto> PyStr ''-'',
       ''scm'' \<mapsto> PyStr ''auto'', ''func'' \<mapsto> PyFunc Fn_checksum_manifest)"
  by (simp add: initial_namespace_def cmd_checksum_manifest_def argument_defs set_if_absent_def)

lemma top_initial:
  "initial_namespace (top_arguments (cli_parser MODES))
       [(subparsers_dest (cli_parser MODES), PyNone)] =
     Map.empty(''loglevel'' \<mapsto> PyNone, ''command'' \<mapsto> PyNone)"
  by (simp add: initial_namespace_def cli_parser_def argument_defs set_if_absent_def)

lemma positionals_simps:
  "positionals (arguments cmd_validate_checksum) = [vc_project_root]"
  "positionals (arguments cmd_validate_gpg_signature) = [gpg_checksum_file]"
  "positionals (arguments (cmd_checksum_manifest MODES)) = []"
  by (simp_all add: positionals_def cmd_validate_checksum_def cmd_validate_gpg_signature_def
        cmd_checksum_manifest_def argument_defs)

lemma parse_known_args_consume:
  assumes "parse_known_args p args = Inr (ns, ex)"
  shows "consume (option_table (arguments p)) (initial_namespace (arguments p) (defaults p))
           (positionals (arguments p)) False []
           (zip args (classify_all (option_table (arguments p)) args)) = Inr (ns, [], ex)"
  using assms
  by (auto simp: parse_known_args_def Let_def split: if_splits sum.splits prod.splits)

lemma tokens_in_table:
  assumes "(s, Opt a o_s e) \<in> set (zip args (classify_all tab args))"
  shows "(o_s, a) \<in> set tab"
  using classify_all_Opt [OF assms] parse_optional_in_table by blast

text \<open>What each action does to the namespace when it succeeds.\<close>

lemma take_action_Store:
  assumes "take_action a v n = Inr n'" and "action a = Store"
  shows "\<exists>s. v = Some s \<and> check_value a s \<and> n' = n(dest a \<mapsto> PyStr s)"
  using assms by (auto simp: take_action_def split: option.splits if_splits)

lemma take_action_StoreTrue:
  assumes "take_action a v n = Inr n'" and "action a = StoreTrue"
  shows "n' = n(dest a \<mapsto> PyBool True)"
  using assms by (auto simp: take_action_def)

lemma take_action_StoreConst:
  assumes "take_action a v n = Inr n'" and "action a = StoreConst c"
  shows "n' = n(dest a \<mapsto> c)"
  using assms by (auto simp: take_action_def)

lemma take_action_Help:
  assumes "take_action a v n = Inr n'"
  shows "action a \<noteq> Help \<and> action a \<noteq> Version"
  using assms by (auto simp: take_action_def)

lemma argument_fields [simp]:
  "action help_argument = Help"
  "action version_argument = Version"
  "action debug_argument = StoreConst (PyInt logging_DEBUG)" "dest debug_argument = ''loglevel''"
  "action scm_argument = Store" "dest scm_argument = ''scm''"
  "choices scm_argument = Some [''git'', ''directory'', ''auto'']"
  "action vc_checksum_file = Store" "dest vc_checksum_file = ''checksum_file''"
  "choices vc_checksum_file = None"
  "action vc_ignore = StoreTrue" "dest vc_ignore = ''ignore_file_list_differences''"
  "action vc_project_root = Store" "dest vc_project_root = ''project_root''"
  "choices vc_project_root = None"
  "action gpg_signature_file = Store" "dest gpg_signature_file = ''signature_file''"
  "choices gpg_signature_file = None"
  "action gpg_checksum_file = Store" "dest gpg_checksum_file = ''checksum_file''"
  "choices gpg_checksum_file = None"
  "action (cm_algorithm MODES) = Store" "dest (cm_algorithm MODES) = ''algorithm''"
  "choices (cm_algorithm MODES) = Some MODES"
  "action cm_output = Store" "dest cm_output = ''output''"
  "choices cm_output = None"
  by (simp_all add: argument_defs DIFFER_MAP_def)

lemma vc_namespace:
  assumes "parse_known_args cmd_validate_checksum args = Inr (ns, ex)"
  shows "ns ''func'' = Some (PyFunc Fn_validate_checksum)
       \<and> (\<exists>c. ns ''checksum_file'' = Some (PyStr c))
       \<and> (\<exists>s. ns ''scm'' = Some (PyStr s) \<and> s \<in> {''git'', ''directory'', ''auto''})
       \<and> (\<exists>b. ns ''ignore_file_list_differences'' = Some (PyBool b))
       \<and> (\<exists>r. ns ''project_root'' = Some (PyStr r))
       \<and> ns ''command'' = None \<and> ns ''loglevel'' = None"
proof -
  define P where "P = (\<lambda>(n :: namespace) (q :: argument list).
      n ''func'' = Some (PyFunc Fn_validate_checksum)
    \<and> (\<exists>c. n ''checksum_file'' = Some (PyStr c))
    \<and> (\<exists>s. n ''scm'' = Some (PyStr s) \<and> s \<in> {''git'', ''directory'', ''auto''})
    \<and> (n ''ignore_file_list_differences'' = Some (PyBool True)
         \<or> n ''ignore_file_list_differences'' = Some (PyBool False))
    \<and> n ''command'' = None \<and> n ''loglevel'' = None
    \<and> (q \<noteq> [] \<longrightarrow> q = [vc_project_root])
    \<and> (q = [] \<longrightarrow> (\<exists>r. n ''project_root'' = Some (PyStr r))))"
  define Q where "Q = (\<lambda>a. a \<in> {help_argument, vc_checksum_file, scm_argument, vc_ignore})"
  let ?tab = "option_table (arguments cmd_validate_checksum)"
  have init: "P (initial_namespace (arguments cmd_validate_checksum)
                  (defaults cmd_validate_checksum))
                (positionals (arguments cmd_validate_checksum))"
    unfolding P_def vc_initial positionals_simps by auto
  have opts: "\<forall>s a o_s e. (s, Opt a o_s e) \<in> set (zip args (classify_all ?tab args)) \<longrightarrow> Q a"
    using tokens_in_table [where tab = ?tab and args = args]
    by (auto simp: Q_def vc_table)
  have short: "\<forall>c b. map_of ?tab [CHR ''-'', c] = Some b \<longrightarrow> Q b"
    by (auto simp: Q_def vc_table split: if_splits)
  have step: "P n' q" if "Q a" "P n q" and t: "take_action a v n = Inr n'" for a v n n' q
  proof -
    from \<open>Q a\<close> consider "a = help_argument" | "a = vc_checksum_file" | "a = scm_argument"
      | "a = vc_ignore" by (auto simp: Q_def)
    then show ?thesis
    proof cases
      case 1
      with take_action_Help [OF t] show ?thesis by simp
    next
      case 2
      with take_action_Store [OF t] obtain s where "n' = n(''checksum_file'' \<mapsto> PyStr s)"
        by auto
      with \<open>P n q\<close> show ?thesis by (simp add: P_def)
    next
      case 3
      with take_action_Store [OF t] obtain s where "n' = n(''scm'' \<mapsto> PyStr s)"
        "s \<in> {''git'', ''directory'', ''auto''}"
        by (auto simp: check_value_def)
      with \<open>P n q\<close> show ?thesis by (simp add: P_def)
    next
      case 4
      with take_action_StoreTrue [OF t]
      have "n' = n(''ignore_file_list_differences'' \<mapsto> PyBool True)"
        by simp
      with \<open>P n q\<close> show ?thesis by (simp add: P_def)
    qed
  qed
  have pos: "P n' q" if p: "P n (p # q)" and t: "take_action p (Some v) n = Inr n'" for p v n n' q
  proof -
    from p have pq: "p = vc_project_root" "q = []" by (simp_all add: P_def)
    with take_action_Store [OF t] have "n' = n(''project_root'' \<mapsto> PyStr v)"
      by simp
    with p pq show ?thesis by (simp add: P_def)
  qed
  have "P ns []"
    by (rule consume_invariant [where P = P and Q = Q,
          OF parse_known_args_consume [OF assms] init opts short])
       (erule (2) step, erule (1) pos)
  then show ?thesis by (auto simp: P_def)
qed

lemma gpg_namespace:
  assumes "parse_known_args cmd_validate_gpg_signature args = Inr (ns, ex)"
  shows "ns ''func'' = Some (PyFunc Fn_validate_gpg_signature)
       \<and> (\<exists>c. ns ''checksum_file'' = Some (PyStr c))
       \<and> (\<exists>s. ns ''signature_file'' = Some (PyStr s))
       \<and> ns ''command'' = None \<and> ns ''loglevel'' = None"
proof -
  define P where "P = (\<lambda>(n :: namespace) (q :: argument list).
      n ''func'' = Some (PyFunc Fn_validate_gpg_signature)
    \<and> (\<exists>c. n ''checksum_file'' = Some (PyStr c))
    \<and> (\<exists>s. n ''signature_file'' = Some (PyStr s))
    \<and> n ''command'' = None \<and> n ''loglevel'' = None
    \<and> (q \<noteq> [] \<longrightarrow> q = [gpg_checksum_file]))"
  define Q where "Q = (\<lambda>a. a \<in> {help_argument, gpg_signature_file})"
  let ?tab = "option_table (arguments cmd_validate_gpg_signature)"
  have init: "P (initial_namespace (arguments cmd_validate_gpg_signature)
                  (defaults cmd_validate_gpg_signature))
                (positionals (arguments cmd_validate_gpg_signature))"
    unfolding P_def gpg_initial positionals_simps by auto
  have opts: "\<forall>s a o_s e. (s, Opt a o_s e) \<in> set (zip args (classify_all ?tab args)) \<longrightarrow> Q a"
    using tokens_in_table [where tab = ?tab and args = args]
    by (auto simp: Q_def gpg_table)
  have short: "\<forall>c b. map_of ?tab [CHR ''-'', c] = Some b \<longrightarrow> Q b"
    by (auto simp: Q_def gpg_table split: if_splits)
  have step: "P n' q" if "Q a" "P n q" and t: "take_action a v n = Inr n'" for a v n n' q
  proof -
    from \<open>Q a\<close> consider "a = help_argument" | "a = gpg_signature_file"
      by (auto simp: Q_def)
    then show ?thesis
    proof cases
      case 1
      with take_action_Help [OF t] show ?thesis by simp
    next
      case 2
      with take_action_Store [OF t] obtain s where "n' = n(''signature_file'' \<mapsto> PyStr s)"
        by auto
      with \<open>P n q\<close> show ?thesis by (simp add: P_def)
    qed
  qed
  have pos: "P n' q" if p: "P n (p # q)" and t: "take_action p (Some v) n = Inr n'" for p v n n' q
  proof -
    from p have pq: "p = gpg_checksum_file" "q = []" by (simp_all add: P_def)
    with take_action_Store [OF t] have "n' = n(''checksum_file'' \<mapsto> PyStr v)"
      by simp
    with p pq show ?thesis by (simp add: P_def)
  qed
  have "P ns []"
    by (rule consume_invariant [where P = P and Q = Q,
          OF parse_known_args_consume [OF assms] init opts short])
       (erule (2) step, erule (1) pos)
  then show ?thesis by (simp add: P_def)
qed

lemma cm_namespace:
  assumes "parse_known_args (cmd_checksum_manifest MODES) args = Inr (ns, ex)"
  shows "ns ''func'' = Some (PyFunc Fn_checksum_manifest)
       \<and> (\<exists>a. ns ''algorithm'' = Some (PyStr a) \<and> (a = ''sha256'' \<or> a \<in> set MODES))
       \<and> (\<exists>out. ns ''output'' = Some (PyStr out))
       \<and> (\<exists>s. ns ''scm'' = Some (PyStr s) \<and> s \<in> {''git'', ''directory'', ''auto''})
       \<and> ns ''command'' = None \<and> ns ''loglevel'' = None"
proof -
  define P where "P = (\<lambda>(n :: namespace) (q :: argument list).
      n ''func'' = Some (PyFunc Fn_checksum_manifest)
    \<and> (\<exists>a. n ''algorithm'' = Some (PyStr a) \<and> (a = ''sha256'' \<or> a \<in> set MODES))
    \<and> (\<exists>out. n ''output'' = Some (PyStr out))
    \<and> (\<exists>s. n ''scm'' = Some (PyStr s) \<and> s \<in> {''git'', ''directory'', ''auto''})
    \<and> n ''command'' = None \<and> n ''loglevel'' = None
    \<and> q = [])"
  define Q where "Q = (\<lambda>a. a \<in> {help_argument, cm_algorithm MODES, cm_output, scm_argument})"
  let ?tab = "option_table (arguments (cmd_checksum_manifest MODES))"
  have init: "P (initial_namespace (arguments (cmd_checksum_manifest MODES))
                  (defaults (cmd_checksum_manifest MODES)))
                (positionals (arguments (cmd_checksum_manifest MODES)))"
    unfolding P_def cm_initial positionals_simps by auto
  have opts: "\<forall>s a o_s e. (s, Opt a o_s e) \<in> set (zip args (classify_all ?tab args)) \<longrightarrow> Q a"
    using tokens_in_table [where tab = ?tab and args = args]
    by (auto simp: Q_def cm_table)
  have short: "\<forall>c b. map_of ?tab [CHR ''-'', c] = Some b \<longrightarrow> Q b"
    by (auto simp: Q_def cm_table split: if_splits)
  have step: "P n' q" if "Q a" "P n q" and t: "take_action a v n = Inr n'" for a v n n' q
  proof -
    from \<open>Q a\<close> consider "a = help_argument" | "a = cm_algorithm MODES" | "a = cm_output"
      | "a = scm_argument" by (auto simp: Q_def)
    then show ?thesis
    proof cases
      case 1
      with take_action_Help [OF t] show ?thesis by simp
    next
      case 2
      with take_action_Store [OF t] obtain s where "n' = n(''algorithm'' \<mapsto> PyStr s)"
        "s \<in> set MODES"
        by (auto simp: check_value_def)
      with \<open>P n q\<close> show ?thesis by (simp add: P_def)
    next
      case 3
      with take_action_Store [OF t] obtain s where "n' = n(''output'' \<mapsto> PyStr s)"
        by auto
      with \<open>P n q\<close> show ?thesis by (simp add: P_def)
    next
      case 4
      with take_action_Store [OF t] obtain s where "n' = n(''scm'' \<mapsto> PyStr s)"
        "s \<in> {''git'', ''directory'', ''auto''}"
        by (auto simp: check_value_def)
      with \<open>P n q\<close> show ?thesis by (simp add: P_def)
    qed
  qed
  have pos: "P n' q" if p: "P n (p # q)" and t: "take_action p (Some v) n = Inr n'" for p v n n' q
    using p by (simp add: P_def)
  have "P ns []"
    by (rule consume_invariant [where P = P and Q = Q,
          OF parse_known_args_consume [OF assms] init opts short])
       (erule (2) step, erule (1) pos)
  then show ?thesis by (simp add: P_def)
qed

lemma consume_top_result:
  assumes "consume_top P ns ex toks = Inr res"
      and "T ns"
      and "\<forall>s a o_s e. (s, Opt a o_s e) \<in> set toks \<longrightarrow> Q a"
      and "\<forall>c b. map_of (option_table (top_arguments P)) [CHR ''-'', c] = Some b \<longrightarrow> Q b"
      and step: "\<And>a v n n'. Q a \<Longrightarrow> T n \<Longrightarrow> take_action a v n = Inr n' \<Longrightarrow> T n'"
  shows "\<exists>s r sub subns ns1.
           set r \<subseteq> set toks \<and> map_of (subparsers P) s = Some sub
         \<and> parse_known_args sub (map fst r) = Inr (subns, [])
         \<and> T ns1 \<and> res = ns1(subparsers_dest P \<mapsto> PyStr s) ++ subns"
  using assms(1-4)
proof (induction P ns ex toks rule: consume_top.induct)
  case (1 P ns ex)
  then show ?case by simp
next
  case (2 P ns ex s r)
  from "2.prems"(1) obtain sub subns where m: "map_of (subparsers P) s = Some sub"
    and p: "parse_known_args sub (map fst r) = Inr (subns, [])"
    and r: "res = ns(subparsers_dest P \<mapsto> PyStr s) ++ subns"
    by (auto split: option.splits sum.splits prod.splits if_splits)
  have "set r \<subseteq> set ((s, Arg) # r)" by auto
  with m p r "2.prems"(2) show ?case by blast
next
  case (3 P ns ex s r)
  then show ?case by simp
next
  case (4 P ns ex s r)
  from "4.prems"(1) have c: "consume_top P ns (ex @ [s]) r = Inr res" by simp
  have o: "\<forall>s a o_s e. (s, Opt a o_s e) \<in> set r \<longrightarrow> Q a"
    using "4.prems"(3) by auto
  from "4.IH" [OF c "4.prems"(2) o "4.prems"(4)]
  obtain s' r' sub subns ns1 where "set r' \<subseteq> set r" "map_of (subparsers P) s' = Some sub"
    "parse_known_args sub (map fst r') = Inr (subns, [])" "T ns1"
    "res = ns1(subparsers_dest P \<mapsto> PyStr s') ++ subns"
    by blast
  moreover from this have "set r' \<subseteq> set ((s, Unknown) # r)" by auto
  ultimately show ?case by blast
next
  case (5 P ns ex s r)
  then show ?case by simp
next
  case (6 P ns ex s a o_s explicit_arg r)
  from "6.prems"(1) have tv: "\<not> takes_value a"
    by (auto split: if_splits)
  with "6.prems"(1) obtain n1
    where f: "consume_flag (option_table (top_arguments P)) a o_s explicit_arg ns = Inr n1"
      and c: "consume_top P n1 ex r = Inr res"
    by (auto split: sum.splits)
  have Qa: "Q a" using "6.prems"(3) by auto
  have o: "\<forall>s a o_s e. (s, Opt a o_s e) \<in> set r \<longrightarrow> Q a"
    using "6.prems"(3) by auto
  have t1: "T n1"
    by (rule consume_flag_invariant [where P = T and Q = Q, OF f "6.prems"(2) Qa])
       (use "6.prems"(4) in \<open>auto intro: step\<close>)
  from "6.IH" [OF tv f c t1 o "6.prems"(4)]
  obtain s' r' sub subns ns1 where "set r' \<subseteq> set r" "map_of (subparsers P) s' = Some sub"
    "parse_known_args sub (map fst r') = Inr (subns, [])" "T ns1"
    "res = ns1(subparsers_dest P \<mapsto> PyStr s') ++ subns"
    by blast
  moreover from this have "set r' \<subseteq> set ((s, Opt a o_s explicit_arg) # r)" by auto
  ultimately show ?case by blast
qed

lemma parse_args_decompose:
  assumes "parse_args MODES args = Inr ns"
  obtains cmd sub rest subns ns1 where
    "set rest \<subseteq> set args" "map_of (subparsers (cli_parser MODES)) cmd = Some sub"
    "parse_known_args sub rest = Inr (subns, [])"
    "ns1 ''loglevel'' = Some PyNone \<or> ns1 ''loglevel'' = Some (PyInt logging_DEBUG)"
    "ns = ns1(''command'' \<mapsto> PyStr cmd) ++ subns"
proof -
  let ?P = "cli_parser MODES"
  let ?tab = "option_table (top_arguments ?P)"
  define T where "T = (\<lambda>n :: namespace.
     n ''loglevel'' = Some PyNone \<or> n ''loglevel'' = Some (PyInt logging_DEBUG))"
  define Q where "Q = (\<lambda>a. a \<in> {help_argument, version_argument, debug_argument})"
  from assms have c: "consume_top ?P (initial_namespace (top_arguments ?P)
        [(subparsers_dest ?P, PyNone)]) [] (zip args (classify_all ?tab args)) = Inr ns"
    by (auto simp: parse_args_def top_parse_args_def Let_def split: if_splits)
  have init: "T (initial_namespace (top_arguments ?P) [(subparsers_dest ?P, PyNone)])"
    by (simp add: T_def top_initial)
  have opts: "\<forall>s a o_s e. (s, Opt a o_s e) \<in> set (zip args (classify_all ?tab args)) \<longrightarrow> Q a"
    using tokens_in_table [where tab = ?tab and args = args]
    by (auto simp: Q_def top_table)
  have short: "\<forall>c b. map_of ?tab [CHR ''-'', c] = Some b \<longrightarrow> Q b"
    by (auto simp: Q_def top_table split: if_splits)
  have step: "T n'" if "Q a" "T n" and t: "take_action a v n = Inr n'" for a v n n'
  proof -
    from \<open>Q a\<close> consider "a = help_argument" | "a = version_argument" | "a = debug_argument"
      by (auto simp: Q_def)
    then show ?thesis
    proof cases
      case 1
      with take_action_Help [OF t] show ?thesis by simp
    next
      case 2
      with take_action_Help [OF t] show ?thesis by simp
    next
      case 3
      with take_action_StoreConst [OF t, of "PyInt logging_DEBUG"] show ?thesis
        by (simp add: T_def)
    qed
  qed
  have "\<exists>s r sub subns ns1.
           set r \<subseteq> set (zip args (classify_all ?tab args))
         \<and> map_of (subparsers ?P) s = Some sub
         \<and> parse_known_args sub (map fst r) = Inr (subns, [])
         \<and> T ns1 \<and> ns = ns1(subparsers_dest ?P \<mapsto> PyStr s) ++ subns"
    by (rule consume_top_result [where T = T and Q = Q, OF c init opts short]) (erule (2) step)
  then obtain s r sub subns ns1 where r: "set r \<subseteq> set (zip args (classify_all ?tab args))"
    and m: "map_of (subparsers ?P) s = Some sub"
    and p: "parse_known_args sub (map fst r) = Inr (subns, [])"
    and t: "T ns1" and n: "ns = ns1(subparsers_dest ?P \<mapsto> PyStr s) ++ subns"
    by blast
  have sub: "set (map fst r) \<subseteq> set args"
  proof
    fix x assume "x \<in> set (map fst r)"
    then obtain y where "(x, y) \<in> set r" by auto
    with r have "(x, y) \<in> set (zip args (classify_all ?tab args))" by blast
    then show "x \<in> set args" by (rule set_zip_leftD)
  qed
  have d: "subparsers_dest ?P = ''command''" by (simp add: cli_parser_def)
  show thesis
    by (rule that [OF sub m p t [unfolded T_def] n [unfolded d]])
qed




lemma subparsers_cases:
  assumes "map_of (subparsers (cli_parser MODES)) cmd = Some sub"
  shows "(cmd = ''validate-checksum'' \<and> sub = cmd_validate_checksum)
       \<or> (cmd = ''validate-gpg-signature'' \<and> sub = cmd_validate_gpg_signature)
       \<or> (cmd = ''checksum-manifest'' \<and> sub = cmd_checksum_manifest MODES)"
  using assms by (auto simp: cli_parser_def split: if_splits)

lemma parse_args_sub:
  assumes "parse_args MODES args = Inr ns"
  obtains
    (vc) rest subns where "set rest \<subseteq> set args"
      "parse_known_args cmd_validate_checksum rest = Inr (subns, [])"
      "ns ''command'' = Some (PyStr ''validate-checksum'')"
      "ns ''loglevel'' = Some PyNone \<or> ns ''loglevel'' = Some (PyInt logging_DEBUG)"
      "\<And>k v. subns k = Some v \<Longrightarrow> ns k = Some v"
  | (gpg) rest subns where "set rest \<subseteq> set args"
      "parse_known_args cmd_validate_gpg_signature rest = Inr (subns, [])"
      "ns ''command'' = Some (PyStr ''validate-gpg-signature'')"
      "ns ''loglevel'' = Some PyNone \<or> ns ''loglevel'' = Some (PyInt logging_DEBUG)"
      "\<And>k v. subns k = Some v \<Longrightarrow> ns k = Some v"
  | (cm) rest subns where "set rest \<subseteq> set args"
      "parse_known_args (cmd_checksum_manifest MODES) rest = Inr (subns, [])"
      "ns ''command'' = Some (PyStr ''checksum-manifest'')"
      "ns ''loglevel'' = Some PyNone \<or> ns ''loglevel'' = Some (PyInt logging_DEBUG)"
      "\<And>k v. subns k = Some v \<Longrightarrow> ns k = Some v"
proof -
  from assms obtain cmd sub rest subns ns1 where
    r: "set rest \<subseteq> set args" and m: "map_of (subparsers (cli_parser MODES)) cmd = Some sub"
    and p: "parse_known_args sub rest = Inr (subns, [])"
    and l: "ns1 ''loglevel'' = Some PyNone \<or> ns1 ''loglevel'' = Some (PyInt logging_DEBUG)"
    and n: "ns = ns1(''command'' \<mapsto> PyStr cmd) ++ subns"
    by (rule parse_args_decompose)
  have over: "ns k = Some v" if "subns k = Some v" for k v
    using that n by (simp add: map_add_def)
  have other: "ns k = (ns1(''command'' \<mapsto> PyStr cmd)) k" if "subns k = None" for k
    using that n by (simp add: map_add_def)
  from subparsers_cases [OF m] consider
    "cmd = ''validate-checksum''" "sub = cmd_validate_checksum"
    | "cmd = ''validate-gpg-signature''" "sub = cmd_validate_gpg_signature"
    | "cmd = ''checksum-manifest''" "sub = cmd_checksum_manifest MODES"
    by blast
  then show thesis
  proof cases
    case 1
    with p have p': "parse_known_args cmd_validate_checksum rest = Inr (subns, [])" by simp
    from vc_namespace [OF p'] have "subns ''command'' = None" "subns ''loglevel'' = None"
      by simp_all
    with other [of "''command''"] other [of "''loglevel''"] l 1
    have c: "ns ''command'' = Some (PyStr ''validate-checksum'')"
      and lv: "ns ''loglevel'' = Some PyNone \<or> ns ''loglevel'' = Some (PyInt logging_DEBUG)"
      by simp_all
    show thesis by (rule vc [OF r p' c lv over])
  next
    case 2
    with p have p': "parse_known_args cmd_validate_gpg_signature rest = Inr (subns, [])" by simp
    from gpg_namespace [OF p'] have "subns ''command'' = None" "subns ''loglevel'' = None"
      by simp_all
    with other [of "''command''"] other [of "''loglevel''"] l 2
    have c: "ns ''command'' = Some (PyStr ''validate-gpg-signature'')"
      and lv: "ns ''loglevel'' = Some PyNone \<or> ns ''loglevel'' = Some (PyInt logging_DEBUG)"
      by simp_all
    show thesis by (rule gpg [OF r p' c lv over])
  next
    case 3
    with p have p': "parse_known_args (cmd_checksum_manifest MODES) rest = Inr (subns, [])"
      by simp
    from cm_namespace [OF p'] have "subns ''command'' = None" "subns ''loglevel'' = None"
      by simp_all
    with other [of "''command''"] other [of "''loglevel''"] l 3
    have c: "ns ''command'' = Some (PyStr ''checksum-manifest'')"
      and lv: "ns ''loglevel'' = Some PyNone \<or> ns ''loglevel'' = Some (PyInt logging_DEBUG)"
      by simp_all
    show thesis by (rule cm [OF r p' c lv over])
  qed
qed











subsection \<open>\<^verbatim>\<open>main\<close>\<close>


lemma loglevel_of_parsed:
  assumes "ns ''loglevel'' = Some PyNone \<or> ns ''loglevel'' = Some (PyInt logging_DEBUG)"
  shows "loglevel_of ns =
           Inr (if ns ''loglevel'' = Some PyNone then None else Some logging_DEBUG)"
  using assms by (auto simp: loglevel_of_def)

lemma main_eq:
  assumes "parse_args (ChecksumFile_MODES env) args = Inr ns"
      and "loglevel_of ns = Inr l"
  shows "main env args =
     (case call_func env ns of
        (tr, Inl e) \<Rightarrow>
          (SetupLogging l # fst (logger_log l logging_DEBUG ''Starting crazy calculations...'')
             @ tr, Inl e)
      | (tr, Inr x) \<Rightarrow>
          (SetupLogging l # fst (logger_log l logging_DEBUG ''Starting crazy calculations...'')
             @ tr @ fst (logger_log l logging_INFO ''Script ends here''), Inr x))"
proof -
  define D where "D = fst (logger_log l logging_DEBUG ''Starting crazy calculations...'')"
  define I where "I = fst (logger_log l logging_INFO ''Script ends here'')"
  have lgD: "logger_log l logging_DEBUG ''Starting crazy calculations...'' = (D, Inr ())"
    by (simp add: D_def logger_log_def io_defs)
  have lgI: "logger_log l logging_INFO ''Script ends here'' = (I, Inr ())"
    by (simp add: I_def logger_log_def io_defs)
  obtain tr r where c: "call_func env ns = (tr, r)" by (cases "call_func env ns")
  have "main env args =
     (case r of Inl e \<Rightarrow> (SetupLogging l # D @ tr, Inl e)
      | Inr x \<Rightarrow> (SetupLogging l # D @ tr @ I, Inr x))"
    unfolding main_def
    by (cases r)
       (simp_all add: assms setup_logging_def call_io_def bind_io_simps lgD lgI c return_io_def)
  then show ?thesis
    by (cases r) (simp_all add: c D_def I_def)
qed



lemma command_distinct:
  "''validate-checksum'' \<noteq> ''checksum-manifest''"
  "''validate-gpg-signature'' \<noteq> ''checksum-manifest''"
  "''validate-checksum'' \<noteq> ''validate-gpg-signature''"
  by simp_all

lemma parsed_checksum_manifest:
  assumes "parse_args MODES args = Inr ns"
      and "ns ''command'' = Some (PyStr ''checksum-manifest'')"
  obtains rest subns where "set rest \<subseteq> set args"
    "parse_known_args (cmd_checksum_manifest MODES) rest = Inr (subns, [])"
    "\<And>k v. subns k = Some v \<Longrightarrow> ns k = Some v"
    "ns ''loglevel'' = Some PyNone \<or> ns ''loglevel'' = Some (PyInt logging_DEBUG)"
  using assms(1)
proof (cases rule: parse_args_sub)
  case (vc rest subns)
  with assms(2) show ?thesis by simp
next
  case (gpg rest subns)
  with assms(2) show ?thesis by simp
next
  case (cm rest subns)
  then show ?thesis by (intro that [of rest subns]) auto
qed


lemma parsed_validate_gpg_signature:
  assumes "parse_args MODES args = Inr ns"
      and "ns ''command'' = Some (PyStr ''validate-gpg-signature'')"
  obtains rest subns where "set rest \<subseteq> set args"
    "parse_known_args cmd_validate_gpg_signature rest = Inr (subns, [])"
    "\<And>k v. subns k = Some v \<Longrightarrow> ns k = Some v"
    "ns ''loglevel'' = Some PyNone \<or> ns ''loglevel'' = Some (PyInt logging_DEBUG)"
  using assms(1)
proof (cases rule: parse_args_sub)
  case (vc rest subns)
  with assms(2) show ?thesis by simp
next
  case (gpg rest subns)
  then show ?thesis by (intro that [of rest subns]) auto
next
  case (cm rest subns)
  with assms(2) show ?thesis by simp
qed


lemma dest_help [simp]: "dest help_argument = ''help''"
  by (simp add: help_argument_def)









lemma handlers_eq:
  "validate_gpg_signature x = ([Print ''hi''], Inr None)"
  "checksum_manifest y = ([Print ''hi''], Inr None)"
  by (simp_all add: validate_gpg_signature_def checksum_manifest_def io_defs bind_io_simps)



lemma example_modes [simp]:
  "ChecksumFile_MODES example_env = [''sha256'']"
  "ChecksumFile_MODES mismatch_env = [''sha256'']"
  by (simp_all add: example_env_def mismatch_env_def fs_env_def)




lemma parsed_loglevel:
  assumes p: "parse_args MODES args = Inr ns"
  shows "ns ''loglevel'' = Some PyNone \<or> ns ''loglevel'' = Some (PyInt logging_DEBUG)"
  using p by (cases rule: parse_args_sub)





text \<open>
  Claim C7. \<^verbatim>\<open>validate_gpg_signature\<close> and \<^verbatim>\<open>checksum_manifest\<close> print \<^verbatim>\<open>hi\<close> and
  return \<^verbatim>\<open>None\<close>, whatever their argument is; the parser of \<^verbatim>\<open>checksum-manifest\<close>
  offers \<^verbatim>\<open>--algorithm\<close>, \<^verbatim>\<open>--output\<close> and \<^verbatim>\<open>--scm\<close>; and for every accepted command
  line of either subcommand, \<^verbatim>\<open>main\<close> sets up logging, prints \<^verbatim>\<open>hi\<close> (between the
  two log records, when \<^verbatim>\<open>--debug\<close> enables them) and returns \<^verbatim>\<open>None\<close>: the
  environment is never called.
\<close>

theorem unimplemented_handlers:
  "validate_gpg_signature x = ([Print ''hi''], Inr None)
   \<and> checksum_manifest y = ([Print ''hi''], Inr None)
   \<and> concat (map option_strings (arguments (cmd_checksum_manifest MODES))) =
       [''-h'', ''--help'', ''--algorithm'', ''--output'', ''--scm'']
   \<and> (parse_args (ChecksumFile_MODES env) args = Inr ns \<longrightarrow>
      ns ''command'' = Some (PyStr ''validate-gpg-signature'')
        \<or> ns ''command'' = Some (PyStr ''checksum-manifest'') \<longrightarrow>
      main env args =
        (SetupLogging (if ns ''loglevel'' = Some PyNone then None else Some logging_DEBUG)
           # fst (logger_log (if ns ''loglevel'' = Some PyNone then None else Some logging_DEBUG)
                   logging_DEBUG ''Starting crazy calculations...'')
           @ [Print ''hi'']
           @ fst (logger_log (if ns ''loglevel'' = Some PyNone then None else Some logging_DEBUG)
                   logging_INFO ''Script ends here''),
         Inr None))"
proof (intro conjI impI)
  show "validate_gpg_signature x = ([Print ''hi''], Inr None)"
    by (rule handlers_eq)
  show "checksum_manifest y = ([Print ''hi''], Inr None)"
    by (rule handlers_eq)
  show "concat (map option_strings (arguments (cmd_checksum_manifest MODES))) =
       [''-h'', ''--help'', ''--algorithm'', ''--output'', ''--scm'']"
    by (simp add: cmd_checksum_manifest_def argument_defs)
next
  assume p: "parse_args (ChecksumFile_MODES env) args = Inr ns"
    and c: "ns ''command'' = Some (PyStr ''validate-gpg-signature'')
        \<or> ns ''command'' = Some (PyStr ''checksum-manifest'')"
  have l: "loglevel_of ns =
      Inr (if ns ''loglevel'' = Some PyNone then None else Some logging_DEBUG)"
    using parsed_loglevel [OF p] by (rule loglevel_of_parsed [where ns = ns])
  have f: "call_func env ns = ([Print ''hi''], Inr None)"
    using c
  proof
    assume g: "ns ''command'' = Some (PyStr ''validate-gpg-signature'')"
    have "\<exists>rest subns. parse_known_args cmd_validate_gpg_signature rest = Inr (subns, [])
          \<and> (\<forall>k v. subns k = Some v \<longrightarrow> ns k = Some v)"
      by (rule parsed_validate_gpg_signature [OF p g]) blast
    then obtain rest subns where
      k: "parse_known_args cmd_validate_gpg_signature rest = Inr (subns, [])"
      and over: "\<forall>k v. subns k = Some v \<longrightarrow> ns k = Some v"
      by blast
    from gpg_namespace [OF k] over
    have "ns ''func'' = Some (PyFunc Fn_validate_gpg_signature)" by blast
    then show ?thesis by (simp add: call_func_def handlers_eq)
  next
    assume g: "ns ''command'' = Some (PyStr ''checksum-manifest'')"
    have "\<exists>rest subns. parse_known_args (cmd_checksum_manifest (ChecksumFile_MODES env)) rest
            = Inr (subns, [])
          \<and> (\<forall>k v. subns k = Some v \<longrightarrow> ns k = Some v)"
      by (rule parsed_checksum_manifest [OF p g]) blast
    then obtain rest subns where
      k: "parse_known_args (cmd_checksum_manifest (ChecksumFile_MODES env)) rest
            = Inr (subns, [])"
      and over: "\<forall>k v. subns k = Some v \<longrightarrow> ns k = Some v"
      by blast
    from cm_namespace [OF k] over
    have "ns ''func'' = Some (PyFunc Fn_checksum_manifest)" by blast
    then show ?thesis by (simp add: call_func_def handlers_eq)
  qed
  show "main env args =
        (SetupLogging (if ns ''loglevel'' = Some PyNone then None else Some logging_DEBUG)
           # fst (logger_log (if ns ''loglevel'' = Some PyNone then None else Some logging_DEBUG)
                   logging_DEBUG ''Starting crazy calculations...'')
           @ [Print ''hi'']
           @ fst (logger_log (if ns ''loglevel'' = Some PyNone then None else Some logging_DEBUG)
                   logging_INFO ''Script ends here''),
         Inr None)"
    by (simp add: main_eq [OF p l] f)
qed


lemma parse_Inr_obtain:
  assumes "map_sum id f r = Inr v"
  obtains ns where "r = Inr ns" and "f ns = v"
  using assms by (cases r) auto






lemma example_parse_cm_full:
  "map_sum id (\<lambda>ns. (ns ''command'', ns ''loglevel''))
     (parse_args [''sha256'']
        [''checksum-manifest'', ''--algorithm'', ''sha256'', ''--output'', ''x'', ''--scm'',
         ''git'']) =
   Inr (Some (PyStr ''checksum-manifest''), Some PyNone)"
  by code_simp

lemma example_parse_gpg_debug:
  "map_sum id (\<lambda>ns. (ns ''command'', ns ''loglevel''))
     (parse_args [''sha256''] [''--debug'', ''validate-gpg-signature'', ''sha256sum.txt'']) =
   Inr (Some (PyStr ''validate-gpg-signature''), Some (PyInt 10))"
  by code_simp

theorem unimplemented_handlers_witness:
  "main example_env
     [''checksum-manifest'', ''--algorithm'', ''sha256'', ''--output'', ''x'', ''--scm'',
      ''git''] = ([SetupLogging None, Print ''hi''], Inr None)
   \<and> main example_env [''--debug'', ''validate-gpg-signature'', ''sha256sum.txt''] =
       ([SetupLogging (Some 10), LogRecord 10 ''Starting crazy calculations...'',
         Print ''hi'', LogRecord 20 ''Script ends here''], Inr None)"
proof -
  obtain n1 where p1: "parse_args (ChecksumFile_MODES example_env)
        [''checksum-manifest'', ''--algorithm'', ''sha256'', ''--output'', ''x'', ''--scm'',
         ''git''] = Inr n1"
    and c1: "n1 ''command'' = Some (PyStr ''checksum-manifest'')"
    and l1: "n1 ''loglevel'' = Some PyNone"
    using example_parse_cm_full by (auto elim!: parse_Inr_obtain)
  obtain n2 where p2: "parse_args (ChecksumFile_MODES example_env)
        [''--debug'', ''validate-gpg-signature'', ''sha256sum.txt''] = Inr n2"
    and c2: "n2 ''command'' = Some (PyStr ''validate-gpg-signature'')"
    and l2: "n2 ''loglevel'' = Some (PyInt 10)"
    using example_parse_gpg_debug by (auto elim!: parse_Inr_obtain)
  from unimplemented_handlers [where env = example_env and ns = n1 and x = n1 and y = n1
      and MODES = "[]" and args = "[''checksum-manifest'', ''--algorithm'', ''sha256'', ''--output'', ''x'',
         ''--scm'', ''git'']"] p1 c1
  have m1: "main example_env
     [''checksum-manifest'', ''--algorithm'', ''sha256'', ''--output'', ''x'', ''--scm'',
      ''git''] = ([SetupLogging None, Print ''hi''], Inr None)"
    by (simp add: l1 logger_log_def logging_DEBUG_def logging_INFO_def logging_WARNING_def
          return_io_def)
  from unimplemented_handlers [where env = example_env and ns = n2 and x = n2 and y = n2
      and MODES = "[]" and args = "[''--debug'', ''validate-gpg-signature'', ''sha256sum.txt'']"] p2 c2
  have m2: "main example_env [''--debug'', ''validate-gpg-signature'', ''sha256sum.txt''] =
       ([SetupLogging (Some 10), LogRecord 10 ''Starting crazy calculations...'',
         Print ''hi'', LogRecord 20 ''Script ends here''], Inr None)"
    by (simp add: l2 logger_log_def logging_DEBUG_def logging_INFO_def logging_WARNING_def
          call_io_def)
  from m1 m2 show ?thesis by simp
qed




end
